theory Spec2Isabelle
  imports Main "HOL-Library.Word"
begin

section \<open>The EvidenceChain contract (contracts/EvidenceChain.sol)\<close>

text \<open>
  A shallow embedding of the Solidity contract \<^verbatim>\<open>EvidenceChain\<close> and of the part of the
  upload route (\<^verbatim>\<open>backend/routes/evidence.js\<close>) that talks to it.

  \<^item> \<^verbatim>\<open>address\<close> is a 160-bit word, \<^verbatim>\<open>uint256\<close> and \<^verbatim>\<open>bytes32\<close> are 256-bit words.
  \<^item> A Solidity \<^verbatim>\<open>string\<close> is a byte sequence; \<open>string\<close> of HOL is a list of 8-bit characters.
  \<^item> A Solidity \<^verbatim>\<open>mapping\<close> is total: a key never written reads as the zero value of the
    value type. It is a HOL function here, initially constant at that zero value.
  \<^item> A failing \<^verbatim>\<open>require\<close> is the error \<open>Revert msg\<close>; the checked increment of Solidity 0.8
    that overflows is \<open>Panic 0x11\<close>.
  \<^item> Every external function is a function from the storage to a result and the storage at
    the point where the function returns or aborts; \<open>transact\<close> is the rollback of the EVM.
  \<^item> Events (\<^verbatim>\<open>emit\<close>) are not part of the storage and are left out.
  \<^item> \<^verbatim>\<open>keccak256\<close> is a builtin of the language whose code is not part of the repository: it
    is the parameter \<open>keccak256\<close> of the functions that call it. \<^verbatim>\<open>abi.encodePacked\<close> is
    modelled concretely (\<open>encodePacked\<close>).
\<close>

subsection \<open>Data structures\<close>

type_synonym address = "160 word"
type_synonym uint256 = "256 word"
type_synonym bytes32 = "256 word"
type_synonym bytes = "8 word list"

datatype EvidenceStatus = Active | UnderReview | Archived | Disputed

record Evidence =
  fileHash :: string
  ipfsHash :: string
  fileName :: string
  fileType :: string
  fileSize :: uint256
  description :: string
  caseId :: string
  timestamp :: uint256
  uploader :: address
  isSealed :: bool
  status :: EvidenceStatus

text \<open>The struct \<^verbatim>\<open>AuditLog\<close>. Its fields \<^verbatim>\<open>timestamp\<close> and \<^verbatim>\<open>notes\<close> are \<open>logTimestamp\<close> and \<open>logNotes\<close> here: the first
  name is taken by the field of \<open>Evidence\<close>, the second is a keyword of Isabelle.\<close>

record AuditLog =
  actor :: address
  action :: string
  logTimestamp :: uint256
  logNotes :: string

subsection \<open>Storage\<close>

record storage =
  evidenceStore :: "bytes32 \<Rightarrow> Evidence"
  auditLogs :: "bytes32 \<Rightarrow> AuditLog list"
  uploaderEvidence :: "address \<Rightarrow> bytes32 list"
  hashToId :: "string \<Rightarrow> bytes32"
  allEvidenceIds :: "bytes32 list"
  owner :: address
  totalEvidence :: uint256

text \<open>The transaction environment: \<^verbatim>\<open>msg.sender\<close>, \<^verbatim>\<open>block.timestamp\<close>, \<^verbatim>\<open>block.number\<close>.\<close>

record env =
  msg_sender :: address
  block_timestamp :: uint256
  block_number :: uint256

datatype error = Revert string | Panic nat

type_synonym 'a tx = "storage \<Rightarrow> (error + 'a) \<times> storage"

text \<open>The zero value of the struct, which a mapping returns at a key never written.\<close>

definition zeroEvidence :: Evidence where
  "zeroEvidence =
     \<lparr>fileHash = [], ipfsHash = [], fileName = [], fileType = [], fileSize = 0,
      description = [], caseId = [], timestamp = 0, uploader = 0, isSealed = False,
      status = Active\<rparr>"

text \<open>\<^verbatim>\<open>constructor() { owner = msg.sender; }\<close>\<close>

definition constructor :: "env \<Rightarrow> storage" where
  "constructor e =
     \<lparr>evidenceStore = (\<lambda>_. zeroEvidence), auditLogs = (\<lambda>_. []),
      uploaderEvidence = (\<lambda>_. []), hashToId = (\<lambda>_. 0), allEvidenceIds = [],
      owner = msg_sender e, totalEvidence = 0\<rparr>"

text \<open>A transaction that aborts leaves the storage as it was before the call.\<close>

definition transact :: "'a tx \<Rightarrow> 'a tx" where
  "transact f s = (case f s of (Inl e, _) \<Rightarrow> (Inl e, s) | (Inr r, s') \<Rightarrow> (Inr r, s'))"

subsection \<open>Modifiers\<close>

text \<open>\<^verbatim>\<open>require(bytes(evidenceStore[evidenceId].fileHash).length > 0, "Evidence not found")\<close>\<close>

definition evidenceExists :: "storage \<Rightarrow> bytes32 \<Rightarrow> bool" where
  "evidenceExists s evidenceId \<longleftrightarrow> length (fileHash (evidenceStore s evidenceId)) > 0"

text \<open>\<^verbatim>\<open>require(!evidenceStore[evidenceId].isSealed, "Evidence is sealed")\<close>\<close>

definition notSealed :: "storage \<Rightarrow> bytes32 \<Rightarrow> bool" where
  "notSealed s evidenceId \<longleftrightarrow> \<not> isSealed (evidenceStore s evidenceId)"

subsection \<open>The packed encoding of the identifier's preimage\<close>

text \<open>\<open>be_bytes n v\<close>: the \<open>n\<close> low-order bytes of \<open>v\<close>, most significant first.\<close>

fun be_bytes :: "nat \<Rightarrow> nat \<Rightarrow> bytes" where
  "be_bytes 0 v = []"
| "be_bytes (Suc n) v = be_bytes n (v div 256) @ [of_nat (v mod 256)]"

text \<open>\<^verbatim>\<open>abi.encodePacked(fileHash, msg.sender, block.timestamp, block.number)\<close>: the bytes of
  the string with no length prefix, the address in 20 bytes, each \<^verbatim>\<open>uint256\<close> in 32 bytes.\<close>

definition encodePacked :: "string \<Rightarrow> address \<Rightarrow> uint256 \<Rightarrow> uint256 \<Rightarrow> bytes" where
  "encodePacked h a t n =
     map of_char h @ be_bytes 20 (unat a) @ be_bytes 32 (unat t) @ be_bytes 32 (unat n)"

subsection \<open>Core functions\<close>

definition addEvidence ::
  "(bytes \<Rightarrow> bytes32) \<Rightarrow> env \<Rightarrow> string \<Rightarrow> string \<Rightarrow> string \<Rightarrow> string \<Rightarrow> uint256 \<Rightarrow> string \<Rightarrow> string
     \<Rightarrow> bytes32 tx" where
  "addEvidence keccak256 e fileHash' ipfsHash' fileName' fileType' fileSize' description' caseId' s =
     (if \<not> length fileHash' > 0 then (Inl (Revert ''File hash required''), s)
      else if \<not> length fileName' > 0 then (Inl (Revert ''File name required''), s)
      else if \<not> hashToId s fileHash' = 0
        then (Inl (Revert ''Evidence with this hash already exists''), s)
      else
        let evidenceId =
              keccak256 (encodePacked fileHash' (msg_sender e) (block_timestamp e) (block_number e));
            s1 = s\<lparr>evidenceStore := (evidenceStore s)(evidenceId :=
                   \<lparr>fileHash = fileHash', ipfsHash = ipfsHash', fileName = fileName',
                    fileType = fileType', fileSize = fileSize', description = description',
                    caseId = caseId', timestamp = block_timestamp e, uploader = msg_sender e,
                    isSealed = False, status = Active\<rparr>)\<rparr>;
            s2 = s1\<lparr>hashToId := (hashToId s1)(fileHash' := evidenceId)\<rparr>;
            s3 = s2\<lparr>uploaderEvidence := (uploaderEvidence s2)(msg_sender e :=
                   uploaderEvidence s2 (msg_sender e) @ [evidenceId])\<rparr>;
            s4 = s3\<lparr>allEvidenceIds := allEvidenceIds s3 @ [evidenceId]\<rparr>
        in if totalEvidence s4 = - 1 then (Inl (Panic 0x11), s4)
           else
             let s5 = s4\<lparr>totalEvidence := totalEvidence s4 + 1\<rparr>;
                 s6 = s5\<lparr>auditLogs := (auditLogs s5)(evidenceId := auditLogs s5 evidenceId @
                        [\<lparr>actor = msg_sender e, action = ''EVIDENCE_ADDED'',
                          logTimestamp = block_timestamp e, logNotes = ''Initial upload''\<rparr>])\<rparr>
             in (Inr evidenceId, s6))"

definition sealEvidence :: "env \<Rightarrow> bytes32 \<Rightarrow> unit tx" where
  "sealEvidence e evidenceId s =
     (if \<not> evidenceExists s evidenceId then (Inl (Revert ''Evidence not found''), s)
      else if \<not> notSealed s evidenceId then (Inl (Revert ''Evidence is sealed''), s)
      else if \<not> (msg_sender e = uploader (evidenceStore s evidenceId) \<or> msg_sender e = owner s)
        then (Inl (Revert ''Not authorized to seal''), s)
      else
        let s1 = s\<lparr>evidenceStore := (evidenceStore s)(evidenceId :=
                   (evidenceStore s evidenceId)\<lparr>isSealed := True\<rparr>)\<rparr>;
            s2 = s1\<lparr>auditLogs := (auditLogs s1)(evidenceId := auditLogs s1 evidenceId @
                   [\<lparr>actor = msg_sender e, action = ''EVIDENCE_SEALED'',
                     logTimestamp = block_timestamp e,
                     logNotes = ''Evidence sealed for integrity''\<rparr>])\<rparr>
        in (Inr (), s2))"

definition updateStatus :: "env \<Rightarrow> bytes32 \<Rightarrow> EvidenceStatus \<Rightarrow> string \<Rightarrow> unit tx" where
  "updateStatus e evidenceId newStatus notes' s =
     (if \<not> evidenceExists s evidenceId then (Inl (Revert ''Evidence not found''), s)
      else if \<not> notSealed s evidenceId then (Inl (Revert ''Evidence is sealed''), s)
      else if \<not> (msg_sender e = uploader (evidenceStore s evidenceId) \<or> msg_sender e = owner s)
        then (Inl (Revert ''Not authorized''), s)
      else
        let s1 = s\<lparr>evidenceStore := (evidenceStore s)(evidenceId :=
                   (evidenceStore s evidenceId)\<lparr>status := newStatus\<rparr>)\<rparr>;
            s2 = s1\<lparr>auditLogs := (auditLogs s1)(evidenceId := auditLogs s1 evidenceId @
                   [\<lparr>actor = msg_sender e, action = ''STATUS_UPDATED'',
                     logTimestamp = block_timestamp e, logNotes = notes'\<rparr>])\<rparr>
        in (Inr (), s2))"

definition logAudit :: "env \<Rightarrow> bytes32 \<Rightarrow> string \<Rightarrow> string \<Rightarrow> unit tx" where
  "logAudit e evidenceId action' notes' s =
     (if \<not> evidenceExists s evidenceId then (Inl (Revert ''Evidence not found''), s)
      else
        let s1 = s\<lparr>auditLogs := (auditLogs s)(evidenceId := auditLogs s evidenceId @
                   [\<lparr>actor = msg_sender e, action = action',
                     logTimestamp = block_timestamp e, logNotes = notes'\<rparr>])\<rparr>
        in (Inr (), s1))"

subsection \<open>Verification functions and getters (\<^verbatim>\<open>view\<close>: they read the storage only)\<close>

definition verifyEvidence :: "storage \<Rightarrow> string \<Rightarrow> bool \<times> bytes32 \<times> address \<times> uint256" where
  "verifyEvidence s fileHash' =
     (let evidenceId = hashToId s fileHash' in
      if evidenceId = 0 then (False, 0, 0, 0)
      else let e = evidenceStore s evidenceId in (True, evidenceId, uploader e, timestamp e))"

definition getEvidence :: "storage \<Rightarrow> bytes32 \<Rightarrow> error + Evidence" where
  "getEvidence s evidenceId =
     (if \<not> evidenceExists s evidenceId then Inl (Revert ''Evidence not found'')
      else Inr (evidenceStore s evidenceId))"

definition getEvidenceByHash :: "storage \<Rightarrow> string \<Rightarrow> error + Evidence" where
  "getEvidenceByHash s fileHash' =
     (let evidenceId = hashToId s fileHash' in
      if \<not> evidenceId \<noteq> 0 then Inl (Revert ''Evidence not found'')
      else Inr (evidenceStore s evidenceId))"

definition getAuditLogs :: "storage \<Rightarrow> bytes32 \<Rightarrow> error + AuditLog list" where
  "getAuditLogs s evidenceId =
     (if \<not> evidenceExists s evidenceId then Inl (Revert ''Evidence not found'')
      else Inr (auditLogs s evidenceId))"

definition getUploaderEvidence :: "storage \<Rightarrow> address \<Rightarrow> bytes32 list" where
  "getUploaderEvidence s a = uploaderEvidence s a"

definition getAllEvidenceIds :: "storage \<Rightarrow> bytes32 list" where
  "getAllEvidenceIds s = allEvidenceIds s"

definition getEvidenceCount :: "storage \<Rightarrow> uint256" where
  "getEvidenceCount s = totalEvidence s"

subsection \<open>Transactions and runs\<close>

text \<open>The state-changing external functions of the contract, as calls with their arguments.\<close>

datatype call =
    AddEvidence string string string string uint256 string string
  | SealEvidence bytes32
  | UpdateStatus bytes32 EvidenceStatus string
  | LogAudit bytes32 string string

datatype retval = EvidenceId bytes32 | Void

fun dispatch :: "(bytes \<Rightarrow> bytes32) \<Rightarrow> env \<Rightarrow> call \<Rightarrow> retval tx" where
  "dispatch keccak256 e (AddEvidence h ipfs name ty sz d c) s =
     apfst (map_sum id EvidenceId) (addEvidence keccak256 e h ipfs name ty sz d c s)"
| "dispatch keccak256 e (SealEvidence i) s = apfst (map_sum id (\<lambda>_. Void)) (sealEvidence e i s)"
| "dispatch keccak256 e (UpdateStatus i st n) s =
     apfst (map_sum id (\<lambda>_. Void)) (updateStatus e i st n s)"
| "dispatch keccak256 e (LogAudit i a n) s = apfst (map_sum id (\<lambda>_. Void)) (logAudit e i a n s)"

definition exec :: "(bytes \<Rightarrow> bytes32) \<Rightarrow> storage \<Rightarrow> env \<times> call \<Rightarrow> (error + retval) \<times> storage" where
  "exec keccak256 s ec = transact (dispatch keccak256 (fst ec) (snd ec)) s"

text \<open>The storage after a sequence of transactions, each in its own environment.\<close>

fun run :: "(bytes \<Rightarrow> bytes32) \<Rightarrow> storage \<Rightarrow> (env \<times> call) list \<Rightarrow> storage" where
  "run keccak256 s [] = s"
| "run keccak256 s (ec # tr) = run keccak256 (snd (exec keccak256 s ec)) tr"

text \<open>The registrations of a run: content hash, identifier and environment of every
  \<^verbatim>\<open>addEvidence\<close> transaction that succeeded.\<close>

fun registrations ::
  "(bytes \<Rightarrow> bytes32) \<Rightarrow> storage \<Rightarrow> (env \<times> call) list \<Rightarrow> (string \<times> bytes32 \<times> env) list" where
  "registrations keccak256 s [] = []"
| "registrations keccak256 s ((e, c) # tr) =
     (case (c, fst (exec keccak256 s (e, c))) of
        (AddEvidence h _ _ _ _ _ _, Inr (EvidenceId i)) \<Rightarrow> [(h, i, e)]
      | _ \<Rightarrow> [])
     @ registrations keccak256 (snd (exec keccak256 s (e, c))) tr"

text \<open>The results of the transactions of a run, in order.\<close>

fun outcomes ::
  "(bytes \<Rightarrow> bytes32) \<Rightarrow> storage \<Rightarrow> (env \<times> call) list \<Rightarrow> (error + retval) list" where
  "outcomes keccak256 s [] = []"
| "outcomes keccak256 s (ec # tr) =
     fst (exec keccak256 s ec) # outcomes keccak256 (snd (exec keccak256 s ec)) tr"

subsection \<open>The upload route (\<^verbatim>\<open>router.post("/upload")\<close> in routes/evidence.js)\<close>

text \<open>
  The handler hashes the file and then accesses the chain three times, each time awaiting
  the answer: \<^verbatim>\<open>blockchain.verifyEvidence\<close>, a call that sends no transaction; then, inside
  \<^verbatim>\<open>blockchain.addEvidence\<close>, \<^verbatim>\<open>estimateGas\<close>, which simulates \<^verbatim>\<open>addEvidence\<close>, stores
  nothing and throws when the call would abort; then \<^verbatim>\<open>send\<close>, the transaction itself.
  Transactions of other senders can be mined between these accesses: they are the runs
  \<open>between1\<close> and \<open>between2\<close>. The handler answers 409 with the id that
  \<^verbatim>\<open>verifyEvidence\<close> reported when the hash is known at the first access, 500 with the
  error when the simulation or the transaction aborts, and 201 with the new id otherwise.
  The storage in the result is the one after the last access of the handler. The arguments
  are the ones the handler passes on, after its defaults.
\<close>

datatype upload_response = Conflict409 bytes32 | Created201 bytes32 | ServerError500 error

definition upload ::
  "(bytes \<Rightarrow> bytes32) \<Rightarrow> env \<Rightarrow> string \<Rightarrow> string \<Rightarrow> string \<Rightarrow> string \<Rightarrow> uint256 \<Rightarrow> string \<Rightarrow> string
     \<Rightarrow> (env \<times> call) list \<Rightarrow> (env \<times> call) list \<Rightarrow> storage \<Rightarrow> upload_response \<times> storage" where
  "upload keccak256 e fileHash' ipfsHash' fileName' fileType' fileSize' description' caseId'
       between1 between2 s =
     (let existing = verifyEvidence s fileHash' in
      if fst existing then (Conflict409 (fst (snd existing)), s)
      else
        let s1 = run keccak256 s between1 in
        case fst (addEvidence keccak256 e fileHash' ipfsHash' fileName' fileType' fileSize'
                    description' caseId' s1) of
          Inl err \<Rightarrow> (ServerError500 err, s1)
        | Inr _ \<Rightarrow>
            let s2 = run keccak256 s1 between2 in
            case transact (addEvidence keccak256 e fileHash' ipfsHash' fileName' fileType'
                             fileSize' description' caseId') s2 of
              (Inl err, s') \<Rightarrow> (ServerError500 err, s')
            | (Inr evidenceId, s') \<Rightarrow> (Created201 evidenceId, s'))"

text \<open>The byte strings that the \<^verbatim>\<open>addEvidence\<close> calls of a run pass to \<^verbatim>\<open>keccak256\<close>.\<close>

fun preimages :: "(env \<times> call) list \<Rightarrow> bytes list" where
  "preimages [] = []"
| "preimages ((e, AddEvidence h ipfs name ty sz d c) # tr) =
     encodePacked h (msg_sender e) (block_timestamp e) (block_number e) # preimages tr"
| "preimages (_ # tr) = preimages tr"

text \<open>
  What is assumed of \<^verbatim>\<open>keccak256\<close>, on the finitely many byte strings that a run hashes: no
  two of them collide, and none is hashed to zero (the value that \<^verbatim>\<open>hashToId\<close> reads as
  "no such hash").
\<close>

definition collision_free :: "(bytes \<Rightarrow> bytes32) \<Rightarrow> bytes set \<Rightarrow> bool" where
  "collision_free keccak256 B \<longleftrightarrow>
     (\<forall>b \<in> B. \<forall>b' \<in> B. keccak256 b = keccak256 b' \<longrightarrow> b = b') \<and> (\<forall>b \<in> B. keccak256 b \<noteq> 0)"

text \<open>A stand-in for \<^verbatim>\<open>keccak256\<close> at which the model is run on concrete inputs: the length
  of the byte string. It separates content hashes of different lengths.\<close>

definition lengthDigest :: "bytes \<Rightarrow> bytes32" where
  "lengthDigest b = of_nat (length b)"

subsection \<open>The invariant of the storage\<close>

text \<open>The byte string whose digest identifies a record registered in block \<open>n\<close>.\<close>

definition preimage_of :: "Evidence \<Rightarrow> uint256 \<Rightarrow> bytes" where
  "preimage_of r n = encodePacked (fileHash r) (uploader r) (timestamp r) n"

text \<open>
  \<open>B\<close> is a set of preimages. Every record is indexed by its content hash under a non-zero
  identifier that is the digest of its own hash, uploader and timestamp with some block
  number; every entry of the index points at a record with that hash; a sealed record and a
  record with audit entries exist.
\<close>

definition storage_inv :: "(bytes \<Rightarrow> bytes32) \<Rightarrow> bytes set \<Rightarrow> storage \<Rightarrow> bool" where
  "storage_inv keccak256 B s \<longleftrightarrow>
     (\<forall>i. evidenceExists s i \<longrightarrow>
        i \<noteq> 0 \<and> hashToId s (fileHash (evidenceStore s i)) = i \<and>
        (\<exists>n. preimage_of (evidenceStore s i) n \<in> B \<and>
              keccak256 (preimage_of (evidenceStore s i) n) = i)) \<and>
     (\<forall>h. hashToId s h \<noteq> 0 \<longrightarrow>
        evidenceExists s (hashToId s h) \<and> fileHash (evidenceStore s (hashToId s h)) = h) \<and>
     (\<forall>i. isSealed (evidenceStore s i) \<longrightarrow> evidenceExists s i) \<and>
     (\<forall>i. auditLogs s i \<noteq> [] \<longrightarrow> evidenceExists s i)"

text \<open>The content hash \<open>h\<close> is registered under the identifier \<open>i\<close> by the sender and at
  the time of \<open>e\<close>.\<close>

definition registered_as :: "storage \<Rightarrow> string \<Rightarrow> bytes32 \<Rightarrow> env \<Rightarrow> bool" where
  "registered_as s h i e \<longleftrightarrow>
     i \<noteq> 0 \<and> hashToId s h = i \<and> evidenceExists s i \<and> fileHash (evidenceStore s i) = h \<and>
     uploader (evidenceStore s i) = msg_sender e \<and>
     timestamp (evidenceStore s i) = block_timestamp e"

subsection \<open>A concrete run\<close>

text \<open>The environments and calls at which the theorems below are instantiated: the deployer
  creates the contract, Alice registers a file and Bob is a third party.\<close>

definition deployer :: env where
  "deployer = \<lparr>msg_sender = 0xD0, block_timestamp = 1699999999, block_number = 1\<rparr>"

definition alice :: env where
  "alice = \<lparr>msg_sender = 0xA11CE, block_timestamp = 1700000000, block_number = 7\<rparr>"

definition bob :: env where
  "bob = \<lparr>msg_sender = 0xB0B, block_timestamp = 1700000060, block_number = 8\<rparr>"

definition genesis :: storage where
  "genesis = constructor deployer"

definition register_report :: call where
  "register_report =
     AddEvidence ''a1f0'' [] ''report.pdf'' ''application/pdf'' 2048 [] ''CASE-1''"

definition register_photo :: call where
  "register_photo =
     AddEvidence ''b2e1c'' [] ''photo.png'' ''image/png'' 4096 [] ''CASE-1''"

text \<open>The storage after Alice has registered the report, with the stand-in digest.\<close>

definition report_registered :: storage where
  "report_registered = run lengthDigest genesis [(alice, register_report)]"

section \<open>Properties of the encoding\<close>

lemma length_be_bytes [simp]: "length (be_bytes n v) = n"
  by (induction n v rule: be_bytes.induct) simp_all

lemma length_encodePacked: "length (encodePacked h a t n) = length h + 84"
  by (simp add: encodePacked_def)

lemma of_char_byte_eq_iff: "(of_char c :: 8 word) = of_char d \<longleftrightarrow> c = d"
proof
  assume eq: "(of_char c :: 8 word) = of_char d"
  have "\<And>x. unat (of_char x :: 8 word) = of_char x"
  proof -
    fix x
    have "unat (of_nat (of_char x) :: 8 word) = of_char x"
      by (simp add: unat_of_nat take_bit_eq_mod)
    then show "unat (of_char x :: 8 word) = of_char x"
      by (simp only: of_nat_of_char)
  qed
  with eq have "(of_char c :: nat) = of_char d"
    by metis
  then show "c = d" by simp
qed simp

lemma encodePacked_hash_inj:
  assumes "encodePacked h a t n = encodePacked h' a' t' n'"
  shows "h = h'"
proof -
  from assms have "map (of_char :: char \<Rightarrow> 8 word) h = map of_char h'"
    by (simp add: encodePacked_def)
  moreover have "inj (of_char :: char \<Rightarrow> 8 word)"
    by (rule injI) (simp add: of_char_byte_eq_iff)
  ultimately show ?thesis
    by (simp add: inj_map_eq_map)
qed

lemma be_bytes_inj: "v < 256 ^ n \<Longrightarrow> w < 256 ^ n \<Longrightarrow> be_bytes n v = be_bytes n w \<Longrightarrow> v = w"
proof (induction n arbitrary: v w)
  case 0
  then show ?case by simp
next
  case (Suc n)
  from Suc.prems have d: "v div 256 < 256 ^ n" "w div 256 < 256 ^ n"
    by (simp_all add: less_mult_imp_div_less mult.commute)
  from Suc.prems(3) have a: "be_bytes n (v div 256) = be_bytes n (w div 256)"
    and b: "(of_nat (v mod 256) :: 8 word) = of_nat (w mod 256)"
    by simp_all
  from a d have "v div 256 = w div 256" by (rule Suc.IH[rotated 2])
  moreover from b have "v mod 256 = w mod 256"
    by (simp add: word_of_nat_eq_iff take_bit_eq_mod)
  ultimately show ?case
    by (metis div_mult_mod_eq)
qed

lemma be_bytes_word_inj:
  fixes a b :: "'a::len word"
  assumes "LENGTH('a) = 8 * n" and "be_bytes n (unat a) = be_bytes n (unat b)"
  shows "a = b"
proof -
  have p: "(256::nat) ^ n = 2 ^ LENGTH('a)"
    using assms(1) by (simp add: power_mult)
  have "unat a < 256 ^ n" "unat b < 256 ^ n"
    unfolding p by simp_all
  with assms(2) have "unat a = unat b" by (rule be_bytes_inj [rotated 2])
  then show ?thesis by (simp add: word_unat_eq_iff)
qed

lemma encodePacked_inj:
  assumes "encodePacked h a t n = encodePacked h' a' t' n'"
  shows "h = h' \<and> a = a' \<and> t = t' \<and> n = n'"
proof -
  from assms have h: "h = h'" by (rule encodePacked_hash_inj)
  with assms have "be_bytes 20 (unat a) @ be_bytes 32 (unat t) @ be_bytes 32 (unat n) =
      be_bytes 20 (unat a') @ be_bytes 32 (unat t') @ be_bytes 32 (unat n')"
    by (simp add: encodePacked_def)
  then have "be_bytes 20 (unat a) = be_bytes 20 (unat a')"
    and "be_bytes 32 (unat t) = be_bytes 32 (unat t')"
    and "be_bytes 32 (unat n) = be_bytes 32 (unat n')"
    by simp_all
  then have "a = a'" "t = t'" "n = n'"
    by (simp_all add: be_bytes_word_inj)
  with h show ?thesis by simp
qed

lemma lengthDigest_encodePacked:
  "lengthDigest (encodePacked h a t n) = of_nat (length h + 84)"
  by (simp add: lengthDigest_def length_encodePacked)

lemmas scenario_defs =
  deployer_def alice_def bob_def genesis_def register_report_def register_photo_def

section \<open>One transaction\<close>

lemma fresh_id:
  assumes I: "storage_inv k B s" and cf: "collision_free k B"
    and mem: "encodePacked h a t n \<in> B" and new: "hashToId s h = 0"
  shows "\<not> evidenceExists s (k (encodePacked h a t n))"
proof
  let ?i = "k (encodePacked h a t n)"
  let ?r = "evidenceStore s ?i"
  assume ex: "evidenceExists s ?i"
  with I obtain m where nz: "?i \<noteq> 0" and idx: "hashToId s (fileHash ?r) = ?i"
    and pm: "encodePacked (fileHash ?r) (uploader ?r) (timestamp ?r) m \<in> B"
    and dg: "k (encodePacked (fileHash ?r) (uploader ?r) (timestamp ?r) m) = ?i"
    unfolding storage_inv_def preimage_of_def by blast
  from cf pm mem dg have "encodePacked (fileHash ?r) (uploader ?r) (timestamp ?r) m = encodePacked h a t n"
    unfolding collision_free_def by blast
  then have "fileHash ?r = h" by (rule encodePacked_hash_inj)
  with idx nz new show False by simp
qed

lemma exec_seal:
  "exec k s (e, SealEvidence i) =
     (if \<not> evidenceExists s i then (Inl (Revert ''Evidence not found''), s)
      else if isSealed (evidenceStore s i) then (Inl (Revert ''Evidence is sealed''), s)
      else if msg_sender e \<noteq> uploader (evidenceStore s i) \<and> msg_sender e \<noteq> owner s
        then (Inl (Revert ''Not authorized to seal''), s)
      else (Inr Void,
            s\<lparr>evidenceStore := (evidenceStore s)(i := (evidenceStore s i)\<lparr>isSealed := True\<rparr>),
              auditLogs := (auditLogs s)(i := auditLogs s i @
                [\<lparr>actor = msg_sender e, action = ''EVIDENCE_SEALED'',
                  logTimestamp = block_timestamp e, logNotes = ''Evidence sealed for integrity''\<rparr>])\<rparr>))"
  by (simp add: exec_def transact_def sealEvidence_def notSealed_def Let_def)

lemma exec_update:
  "exec k s (e, UpdateStatus i st n) =
     (if \<not> evidenceExists s i then (Inl (Revert ''Evidence not found''), s)
      else if isSealed (evidenceStore s i) then (Inl (Revert ''Evidence is sealed''), s)
      else if msg_sender e \<noteq> uploader (evidenceStore s i) \<and> msg_sender e \<noteq> owner s
        then (Inl (Revert ''Not authorized''), s)
      else (Inr Void,
            s\<lparr>evidenceStore := (evidenceStore s)(i := (evidenceStore s i)\<lparr>status := st\<rparr>),
              auditLogs := (auditLogs s)(i := auditLogs s i @
                [\<lparr>actor = msg_sender e, action = ''STATUS_UPDATED'',
                  logTimestamp = block_timestamp e, logNotes = n\<rparr>])\<rparr>))"
  by (simp add: exec_def transact_def updateStatus_def notSealed_def Let_def)

lemma exec_log:
  "exec k s (e, LogAudit i a n) =
     (if \<not> evidenceExists s i then (Inl (Revert ''Evidence not found''), s)
      else (Inr Void,
            s\<lparr>auditLogs := (auditLogs s)(i := auditLogs s i @
                [\<lparr>actor = msg_sender e, action = a,
                  logTimestamp = block_timestamp e, logNotes = n\<rparr>])\<rparr>))"
  by (simp add: exec_def transact_def logAudit_def Let_def)

lemma exec_add:
  "exec k s (e, AddEvidence h ipfs name ty sz d c) =
     (if h = [] then (Inl (Revert ''File hash required''), s)
      else if name = [] then (Inl (Revert ''File name required''), s)
      else if hashToId s h \<noteq> 0 then (Inl (Revert ''Evidence with this hash already exists''), s)
      else if totalEvidence s = - 1 then (Inl (Panic 0x11), s)
      else (Inr (EvidenceId (k (encodePacked h (msg_sender e) (block_timestamp e) (block_number e)))),
            s\<lparr>evidenceStore := (evidenceStore s)
                (k (encodePacked h (msg_sender e) (block_timestamp e) (block_number e)) :=
                   \<lparr>fileHash = h, ipfsHash = ipfs, fileName = name, fileType = ty, fileSize = sz,
                    description = d, caseId = c, timestamp = block_timestamp e,
                    uploader = msg_sender e, isSealed = False, status = Active\<rparr>),
              hashToId := (hashToId s)
                (h := k (encodePacked h (msg_sender e) (block_timestamp e) (block_number e))),
              uploaderEvidence := (uploaderEvidence s)(msg_sender e :=
                uploaderEvidence s (msg_sender e) @
                  [k (encodePacked h (msg_sender e) (block_timestamp e) (block_number e))]),
              allEvidenceIds := allEvidenceIds s @
                [k (encodePacked h (msg_sender e) (block_timestamp e) (block_number e))],
              totalEvidence := totalEvidence s + 1,
              auditLogs := (auditLogs s)
                (k (encodePacked h (msg_sender e) (block_timestamp e) (block_number e)) :=
                   auditLogs s (k (encodePacked h (msg_sender e) (block_timestamp e) (block_number e))) @
                   [\<lparr>actor = msg_sender e, action = ''EVIDENCE_ADDED'',
                     logTimestamp = block_timestamp e, logNotes = ''Initial upload''\<rparr>])\<rparr>))"
  by (simp add: exec_def transact_def addEvidence_def Let_def)

subsection \<open>The concrete run, evaluated\<close>

lemma report_registered_eq:
  "report_registered =
     \<lparr>evidenceStore = (\<lambda>_. zeroEvidence)(88 :=
        \<lparr>fileHash = ''a1f0'', ipfsHash = [], fileName = ''report.pdf'',
         fileType = ''application/pdf'', fileSize = 2048, description = [], caseId = ''CASE-1'',
         timestamp = 1700000000, uploader = 0xA11CE, isSealed = False, status = Active\<rparr>),
      auditLogs = (\<lambda>_. [])(88 :=
        [\<lparr>actor = 0xA11CE, action = ''EVIDENCE_ADDED'', logTimestamp = 1700000000,
          logNotes = ''Initial upload''\<rparr>]),
      uploaderEvidence = (\<lambda>_. [])(0xA11CE := [88]),
      hashToId = (\<lambda>_. 0)(''a1f0'' := 88),
      allEvidenceIds = [88], owner = 0xD0, totalEvidence = 1\<rparr>"
  by (simp add: report_registered_def scenario_defs exec_add lengthDigest_encodePacked
      constructor_def)

lemma report_registered_simps:
  "evidenceExists report_registered i \<longleftrightarrow> i = 88"
  "isSealed (evidenceStore report_registered i) = False"
  "uploader (evidenceStore report_registered 88) = 0xA11CE"
  "owner report_registered = 0xD0"
  "hashToId report_registered ''a1f0'' = 88"
  by (simp_all add: report_registered_eq evidenceExists_def zeroEvidence_def)

section \<open>The invariant holds in every reachable storage\<close>

lemma invI:
  assumes "\<And>i. evidenceExists s i \<Longrightarrow> i \<noteq> 0"
    and "\<And>i. evidenceExists s i \<Longrightarrow> hashToId s (fileHash (evidenceStore s i)) = i"
    and "\<And>i. evidenceExists s i \<Longrightarrow>
           \<exists>n. preimage_of (evidenceStore s i) n \<in> B \<and> k (preimage_of (evidenceStore s i) n) = i"
    and "\<And>h. hashToId s h \<noteq> 0 \<Longrightarrow> evidenceExists s (hashToId s h)"
    and "\<And>h. hashToId s h \<noteq> 0 \<Longrightarrow> fileHash (evidenceStore s (hashToId s h)) = h"
    and "\<And>i. isSealed (evidenceStore s i) \<Longrightarrow> evidenceExists s i"
    and "\<And>i. auditLogs s i \<noteq> [] \<Longrightarrow> evidenceExists s i"
  shows "storage_inv k B s"
  unfolding storage_inv_def using assms by blast

lemma inv_nonzero: "storage_inv k B s \<Longrightarrow> evidenceExists s i \<Longrightarrow> i \<noteq> 0"
  unfolding storage_inv_def by blast

lemma inv_indexed: "storage_inv k B s \<Longrightarrow> evidenceExists s i \<Longrightarrow> hashToId s (fileHash (evidenceStore s i)) = i"
  unfolding storage_inv_def by blast

lemma inv_digest: "storage_inv k B s \<Longrightarrow> evidenceExists s i \<Longrightarrow>
    \<exists>n. preimage_of (evidenceStore s i) n \<in> B \<and> k (preimage_of (evidenceStore s i) n) = i"
  unfolding storage_inv_def by blast

lemma inv_index_exists: "storage_inv k B s \<Longrightarrow> hashToId s h \<noteq> 0 \<Longrightarrow> evidenceExists s (hashToId s h)"
  unfolding storage_inv_def by blast

lemma inv_index_hash: "storage_inv k B s \<Longrightarrow> hashToId s h \<noteq> 0 \<Longrightarrow> fileHash (evidenceStore s (hashToId s h)) = h"
  unfolding storage_inv_def by blast

lemma inv_sealed_exists: "storage_inv k B s \<Longrightarrow> isSealed (evidenceStore s i) \<Longrightarrow> evidenceExists s i"
  unfolding storage_inv_def by blast

lemma inv_logged_exists: "storage_inv k B s \<Longrightarrow> auditLogs s i \<noteq> [] \<Longrightarrow> evidenceExists s i"
  unfolding storage_inv_def by blast

lemma preimage_of_upd [simp]:
  "preimage_of (r\<lparr>isSealed := b\<rparr>) n = preimage_of r n"
  "preimage_of (r\<lparr>status := st\<rparr>) n = preimage_of r n"
  by (simp_all add: preimage_of_def)

lemma inv_frame:
  assumes I: "storage_inv k B s"
    and fh: "\<And>i. fileHash (evidenceStore s' i) = fileHash (evidenceStore s i)"
    and pm: "\<And>i n. preimage_of (evidenceStore s' i) n = preimage_of (evidenceStore s i) n"
    and ix: "hashToId s' = hashToId s"
    and sl: "\<And>i. isSealed (evidenceStore s' i) \<Longrightarrow> evidenceExists s i"
    and lg: "\<And>i. auditLogs s' i \<noteq> [] \<Longrightarrow> evidenceExists s i"
  shows "storage_inv k B s'"
proof -
  have ex: "\<And>i. evidenceExists s' i = evidenceExists s i"
    by (simp add: evidenceExists_def fh)
  show ?thesis
  proof (rule invI)
    fix i assume "evidenceExists s' i"
    then have e: "evidenceExists s i" by (simp add: ex)
    from I e show "i \<noteq> 0" by (rule inv_nonzero)
    from I e show "hashToId s' (fileHash (evidenceStore s' i)) = i"
      by (simp add: ix fh inv_indexed)
    from I e show "\<exists>n. preimage_of (evidenceStore s' i) n \<in> B \<and> k (preimage_of (evidenceStore s' i) n) = i"
      by (simp add: pm inv_digest)
  next
    fix h assume "hashToId s' h \<noteq> 0"
    then have h: "hashToId s h \<noteq> 0" by (simp add: ix)
    from I h show "evidenceExists s' (hashToId s' h)"
      by (simp add: ix ex inv_index_exists)
    from I h show "fileHash (evidenceStore s' (hashToId s' h)) = h"
      by (simp add: ix fh inv_index_hash)
  next
    fix i assume "isSealed (evidenceStore s' i)"
    then show "evidenceExists s' i" by (simp add: ex sl)
  next
    fix i assume "auditLogs s' i \<noteq> []"
    then show "evidenceExists s' i" by (simp add: ex lg)
  qed
qed

lemma inv_seal:
  assumes I: "storage_inv k B s"
  shows "storage_inv k B (snd (exec k s (e, SealEvidence i)))"
  by (rule inv_frame[OF I])
     (auto simp add: exec_seal inv_sealed_exists[OF I] inv_logged_exists[OF I] split: if_splits)

lemma inv_update:
  assumes I: "storage_inv k B s"
  shows "storage_inv k B (snd (exec k s (e, UpdateStatus i st n)))"
  by (rule inv_frame[OF I])
     (auto simp add: exec_update inv_sealed_exists[OF I] inv_logged_exists[OF I] split: if_splits)

lemma inv_log:
  assumes I: "storage_inv k B s"
  shows "storage_inv k B (snd (exec k s (e, LogAudit i a n)))"
  by (rule inv_frame[OF I])
     (auto simp add: exec_log inv_sealed_exists[OF I] inv_logged_exists[OF I] split: if_splits)

lemma inv_constructor: "storage_inv k B (constructor e)"
  by (rule invI) (simp_all add: constructor_def evidenceExists_def zeroEvidence_def)

lemma preimages_append: "preimages (tr @ tr') = preimages tr @ preimages tr'"
  by (induction tr rule: preimages.induct) simp_all

lemma run_append: "run k s (tr @ tr') = run k (run k s tr) tr'"
  by (induction tr arbitrary: s) simp_all

lemma exec_add_fail:
  "fst (exec k s (e, AddEvidence h ipfs name ty sz d c)) = Inl err \<Longrightarrow>
   snd (exec k s (e, AddEvidence h ipfs name ty sz d c)) = s"
  by (simp add: exec_add split: if_splits)

lemma exec_add_ok:
  assumes "fst (exec k s (e, AddEvidence h ipfs name ty sz d c)) = Inr r"
  shows "h \<noteq> []" "name \<noteq> []" "hashToId s h = 0" "totalEvidence s \<noteq> - 1"
    "r = EvidenceId (k (encodePacked h (msg_sender e) (block_timestamp e) (block_number e)))"
  using assms by (auto simp add: exec_add split: if_splits)

lemma fresh_id':
  assumes I: "storage_inv k B s" and cf: "collision_free k B"
    and mem: "encodePacked h a t n \<in> B" and new: "hashToId s h = 0"
  shows "\<not> evidenceExists s (k (encodePacked h a t n))"
    and "k (encodePacked h a t n) \<noteq> 0"
    and "auditLogs s (k (encodePacked h a t n)) = []"
    and "\<not> isSealed (evidenceStore s (k (encodePacked h a t n)))"
proof -
  from I cf mem new show f: "\<not> evidenceExists s (k (encodePacked h a t n))" by (rule fresh_id)
  from cf mem show "k (encodePacked h a t n) \<noteq> 0" unfolding collision_free_def by blast
  from I f show "auditLogs s (k (encodePacked h a t n)) = []" using inv_logged_exists by blast
  from I f show "\<not> isSealed (evidenceStore s (k (encodePacked h a t n)))" using inv_sealed_exists by blast
qed

lemma inv_add:
  assumes I: "storage_inv k B s" and cf: "collision_free k B"
    and mem: "encodePacked h (msg_sender e) (block_timestamp e) (block_number e) \<in> B"
  shows "storage_inv k B (snd (exec k s (e, AddEvidence h ipfs name ty sz d c)))"
proof (cases "fst (exec k s (e, AddEvidence h ipfs name ty sz d c))")
  case (Inl err)
  with I show ?thesis by (simp add: exec_add_fail)
next
  case (Inr r)
  define i where "i = k (encodePacked h (msg_sender e) (block_timestamp e) (block_number e))"
  define s' where "s' = snd (exec k s (e, AddEvidence h ipfs name ty sz d c))"
  define r' where "r' = \<lparr>fileHash = h, ipfsHash = ipfs, fileName = name, fileType = ty,
             fileSize = sz, description = d, caseId = c, timestamp = block_timestamp e,
             uploader = msg_sender e, isSealed = False, status = Active\<rparr>"
  note pre = exec_add_ok(1-4)[OF Inr]
  from I cf mem pre(3) have fresh: "\<not> evidenceExists s i" and nz: "i \<noteq> 0"
    unfolding i_def by (rule fresh_id')+
  from pre have st: "evidenceStore s' = (evidenceStore s)(i := r')"
    and ix: "hashToId s' = (hashToId s)(h := i)"
    and al: "\<And>j. j \<noteq> i \<Longrightarrow> auditLogs s' j = auditLogs s j"
    unfolding s'_def i_def r'_def by (simp_all add: exec_add)
  have r': "fileHash r' = h" "isSealed r' = False"
    "preimage_of r' (block_number e) = encodePacked h (msg_sender e) (block_timestamp e) (block_number e)"
    by (simp_all add: r'_def preimage_of_def)
  have ex_new: "evidenceExists s' i"
    using pre(1) by (simp add: evidenceExists_def st r')
  have ex_old: "\<And>j. j \<noteq> i \<Longrightarrow> evidenceExists s' j = evidenceExists s j"
    by (simp add: evidenceExists_def st)
  have "storage_inv k B s'"
  proof (rule invI)
    fix j assume j: "evidenceExists s' j"
    show "j \<noteq> 0"
    proof (cases "j = i")
      case True with nz show ?thesis by simp
    next
      case False
      with j have "evidenceExists s j" by (simp add: ex_old)
      with I show ?thesis by (rule inv_nonzero)
    qed
    show "hashToId s' (fileHash (evidenceStore s' j)) = j"
    proof (cases "j = i")
      case True then show ?thesis by (simp add: st ix r')
    next
      case False
      with j have e: "evidenceExists s j" by (simp add: ex_old)
      from I e have a: "hashToId s (fileHash (evidenceStore s j)) = j" by (rule inv_indexed)
      from I e have "j \<noteq> 0" by (rule inv_nonzero)
      with a pre(3) have "fileHash (evidenceStore s j) \<noteq> h" by auto
      with a False show ?thesis by (simp add: st ix)
    qed
    show "\<exists>n. preimage_of (evidenceStore s' j) n \<in> B \<and> k (preimage_of (evidenceStore s' j) n) = j"
    proof (cases "j = i")
      case True
      have "preimage_of (evidenceStore s' j) (block_number e) \<in> B \<and>
            k (preimage_of (evidenceStore s' j) (block_number e)) = j"
        using mem True by (simp add: st r' i_def)
      then show ?thesis ..
    next
      case False
      with j have e: "evidenceExists s j" by (simp add: ex_old)
      from I e have "\<exists>n. preimage_of (evidenceStore s j) n \<in> B \<and> k (preimage_of (evidenceStore s j) n) = j"
        by (rule inv_digest)
      with False show ?thesis by (simp add: st)
    qed
  next
    fix h' assume h': "hashToId s' h' \<noteq> 0"
    show "evidenceExists s' (hashToId s' h')"
    proof (cases "h' = h")
      case True then show ?thesis using ex_new by (simp add: ix)
    next
      case False
      with h' have nz': "hashToId s h' \<noteq> 0" by (simp add: ix)
      with I have a: "evidenceExists s (hashToId s h')" by (rule inv_index_exists)
      with fresh have "hashToId s h' \<noteq> i" by auto
      with a False show ?thesis by (simp add: ix ex_old)
    qed
    show "fileHash (evidenceStore s' (hashToId s' h')) = h'"
    proof (cases "h' = h")
      case True then show ?thesis by (simp add: ix st r')
    next
      case False
      with h' have nz': "hashToId s h' \<noteq> 0" by (simp add: ix)
      with I have a: "evidenceExists s (hashToId s h')"
        and b: "fileHash (evidenceStore s (hashToId s h')) = h'"
        by (rule inv_index_exists, rule inv_index_hash)
      from a fresh have "hashToId s h' \<noteq> i" by auto
      with b False show ?thesis by (simp add: ix st)
    qed
  next
    fix j assume j: "isSealed (evidenceStore s' j)"
    show "evidenceExists s' j"
    proof (cases "j = i")
      case True with j show ?thesis by (simp add: st r')
    next
      case False
      with j have "isSealed (evidenceStore s j)" by (simp add: st)
      with I have "evidenceExists s j" by (rule inv_sealed_exists)
      with False show ?thesis by (simp add: ex_old)
    qed
  next
    fix j assume j: "auditLogs s' j \<noteq> []"
    show "evidenceExists s' j"
    proof (cases "j = i")
      case True with ex_new show ?thesis by simp
    next
      case False
      with j have "auditLogs s j \<noteq> []" by (simp add: al)
      with I have "evidenceExists s j" by (rule inv_logged_exists)
      with False show ?thesis by (simp add: ex_old)
    qed
  qed
  then show ?thesis by (simp add: s'_def)
qed

lemma inv_exec:
  assumes "storage_inv k B s" "collision_free k B" "set (preimages [ec]) \<subseteq> B"
  shows "storage_inv k B (snd (exec k s ec))"
proof (cases ec)
  case (Pair e c)
  with assms show ?thesis
    by (cases c) (simp_all add: inv_add inv_seal inv_update inv_log)
qed

lemma preimages_ConsD:
  assumes "set (preimages (ec # tr)) \<subseteq> B"
  shows "set (preimages [ec]) \<subseteq> B" and "set (preimages tr) \<subseteq> B"
proof -
  obtain e c where ec: "ec = (e, c)" by (cases ec)
  from assms show "set (preimages [ec]) \<subseteq> B" unfolding ec by (cases c) simp_all
  from assms show "set (preimages tr) \<subseteq> B" unfolding ec by (cases c) simp_all
qed

lemma inv_run:
  "storage_inv k B s \<Longrightarrow> collision_free k B \<Longrightarrow> set (preimages tr) \<subseteq> B \<Longrightarrow> storage_inv k B (run k s tr)"
proof (induction tr arbitrary: s)
  case Nil
  then show ?case by simp
next
  case (Cons ec tr)
  from Cons.prems(3) have a: "set (preimages [ec]) \<subseteq> B" and b: "set (preimages tr) \<subseteq> B"
    by (rule preimages_ConsD)+
  from Cons.prems(1,2) a have "storage_inv k B (snd (exec k s ec))" by (rule inv_exec)
  then show ?case using Cons.IH Cons.prems(2) b by simp
qed

section \<open>Sealing is permanent\<close>

lemma seal_frozen:
  "isSealed (evidenceStore s i) \<Longrightarrow>
   evidenceStore (snd (exec k s (e, SealEvidence j))) i = evidenceStore s i"
  by (cases "i = j") (simp_all add: exec_seal)

lemma update_frozen:
  "isSealed (evidenceStore s i) \<Longrightarrow>
   evidenceStore (snd (exec k s (e, UpdateStatus j st n))) i = evidenceStore s i"
  by (cases "i = j") (simp_all add: exec_update)

lemma log_frozen: "evidenceStore (snd (exec k s (e, LogAudit j a n))) = evidenceStore s"
  by (simp add: exec_log)

lemma seal_core:
  "fileHash (evidenceStore (snd (exec k s (e, SealEvidence j))) i) = fileHash (evidenceStore s i) \<and>
   uploader (evidenceStore (snd (exec k s (e, SealEvidence j))) i) = uploader (evidenceStore s i) \<and>
   timestamp (evidenceStore (snd (exec k s (e, SealEvidence j))) i) = timestamp (evidenceStore s i)"
  by (simp add: exec_seal)

lemma update_core:
  "fileHash (evidenceStore (snd (exec k s (e, UpdateStatus j st n))) i) = fileHash (evidenceStore s i) \<and>
   uploader (evidenceStore (snd (exec k s (e, UpdateStatus j st n))) i) = uploader (evidenceStore s i) \<and>
   timestamp (evidenceStore (snd (exec k s (e, UpdateStatus j st n))) i) = timestamp (evidenceStore s i)"
  by (simp add: exec_update)

lemma add_frozen:
  assumes I: "storage_inv k B s" and cf: "collision_free k B"
    and mem: "encodePacked h (msg_sender e) (block_timestamp e) (block_number e) \<in> B"
    and ex: "evidenceExists s i"
  shows "evidenceStore (snd (exec k s (e, AddEvidence h ipfs name ty sz d c))) i = evidenceStore s i"
proof (cases "fst (exec k s (e, AddEvidence h ipfs name ty sz d c))")
  case (Inl err)
  then show ?thesis by (simp add: exec_add_fail)
next
  case (Inr r)
  note pre = exec_add_ok(1-4)[OF Inr]
  from I cf mem pre(3)
  have "\<not> evidenceExists s (k (encodePacked h (msg_sender e) (block_timestamp e) (block_number e)))"
    by (rule fresh_id)
  with ex have "i \<noteq> k (encodePacked h (msg_sender e) (block_timestamp e) (block_number e))"
    by auto
  then show ?thesis using pre by (simp add: exec_add)
qed

lemma exec_sealed_frozen:
  assumes I: "storage_inv k B s" and cf: "collision_free k B" and sub: "set (preimages [ec]) \<subseteq> B"
    and sl: "isSealed (evidenceStore s i)"
  shows "evidenceStore (snd (exec k s ec)) i = evidenceStore s i"
proof (cases ec)
  case (Pair e c)
  from I sl have ex: "evidenceExists s i" by (rule inv_sealed_exists)
  show ?thesis
  proof (cases c)
    case (AddEvidence h ipfs name ty sz d c')
    with sub Pair have "encodePacked h (msg_sender e) (block_timestamp e) (block_number e) \<in> B"
      by simp
    with I cf show ?thesis unfolding Pair AddEvidence using ex by (rule add_frozen)
  next
    case (SealEvidence j)
    with Pair sl show ?thesis by (simp add: seal_frozen)
  next
    case (UpdateStatus j st n)
    with Pair sl show ?thesis by (simp add: update_frozen)
  next
    case (LogAudit j a n)
    with Pair show ?thesis by (simp add: log_frozen)
  qed
qed

lemma exec_core_stable:
  assumes I: "storage_inv k B s" and cf: "collision_free k B" and sub: "set (preimages [ec]) \<subseteq> B"
    and ex: "evidenceExists s i"
  shows "fileHash (evidenceStore (snd (exec k s ec)) i) = fileHash (evidenceStore s i) \<and>
    uploader (evidenceStore (snd (exec k s ec)) i) = uploader (evidenceStore s i) \<and>
    timestamp (evidenceStore (snd (exec k s ec)) i) = timestamp (evidenceStore s i)"
proof (cases ec)
  case (Pair e c)
  show ?thesis
  proof (cases c)
    case (AddEvidence h ipfs name ty sz d c')
    with sub Pair have "encodePacked h (msg_sender e) (block_timestamp e) (block_number e) \<in> B"
      by simp
    with I cf have "evidenceStore (snd (exec k s (e, AddEvidence h ipfs name ty sz d c'))) i = evidenceStore s i"
      using ex by (rule add_frozen)
    then show ?thesis unfolding Pair AddEvidence by simp
  next
    case (SealEvidence j)
    with Pair show ?thesis by (simp only: seal_core)
  next
    case (UpdateStatus j st n)
    with Pair show ?thesis by (simp only: update_core)
  next
    case (LogAudit j a n)
    with Pair show ?thesis by (simp add: log_frozen)
  qed
qed

lemma run_sealed_frozen:
  "storage_inv k B s \<Longrightarrow> collision_free k B \<Longrightarrow> set (preimages tr) \<subseteq> B \<Longrightarrow>
   isSealed (evidenceStore s i) \<Longrightarrow> evidenceStore (run k s tr) i = evidenceStore s i"
proof (induction tr arbitrary: s)
  case Nil
  then show ?case by simp
next
  case (Cons ec tr)
  from Cons.prems(3) have a: "set (preimages [ec]) \<subseteq> B" and b: "set (preimages tr) \<subseteq> B"
    by (rule preimages_ConsD)+
  from Cons.prems(1,2) a have I': "storage_inv k B (snd (exec k s ec))" by (rule inv_exec)
  from Cons.prems(1,2) a Cons.prems(4)
  have eq: "evidenceStore (snd (exec k s ec)) i = evidenceStore s i"
    by (rule exec_sealed_frozen)
  with Cons.prems(4) have "isSealed (evidenceStore (snd (exec k s ec)) i)" by simp
  with I' Cons.prems(2) b have "evidenceStore (run k (snd (exec k s ec)) tr) i = evidenceStore (snd (exec k s ec)) i"
    by (rule Cons.IH)
  with eq show ?case by simp
qed

lemma updateStatus_sealed:
  "evidenceExists s i \<Longrightarrow> isSealed (evidenceStore s i) \<Longrightarrow>
   updateStatus e i st n s = (Inl (Revert ''Evidence is sealed''), s)"
  by (simp add: updateStatus_def notSealed_def)

text \<open>
  Claim C1. In every storage reached from the constructor by any sequence of transactions,
  a record whose \<open>isSealed\<close> flag is set stays exactly as it is under every further sequence
  of transactions: the flag is never reset, the status never changes, and every
  \<^verbatim>\<open>updateStatus\<close> on it aborts with "Evidence is sealed" and leaves the storage as it was.
  The calls of a run are all the state-changing functions of the contract; none unseals.
  The digest is assumed free of collisions and non-zero on the preimages of the run.
\<close>

theorem sealed_is_permanent:
  assumes "collision_free k (set (preimages (tr @ tr')))"
    and "isSealed (evidenceStore (run k (constructor e0) tr) i)"
  shows "evidenceStore (run k (constructor e0) (tr @ tr')) i = evidenceStore (run k (constructor e0) tr) i \<and>
         isSealed (evidenceStore (run k (constructor e0) (tr @ tr')) i) \<and>
         status (evidenceStore (run k (constructor e0) (tr @ tr')) i) =
           status (evidenceStore (run k (constructor e0) tr) i) \<and>
         transact (updateStatus e i st n) (run k (constructor e0) (tr @ tr')) =
           (Inl (Revert ''Evidence is sealed''), run k (constructor e0) (tr @ tr'))"
proof -
  let ?B = "set (preimages (tr @ tr'))"
  let ?s = "run k (constructor e0) tr"
  let ?s' = "run k (constructor e0) (tr @ tr')"
  have sub: "set (preimages tr) \<subseteq> ?B" "set (preimages tr') \<subseteq> ?B"
    by (simp_all add: preimages_append)
  have I: "storage_inv k ?B ?s"
    using inv_constructor assms(1) sub(1) by (rule inv_run)
  have eq: "evidenceStore ?s' i = evidenceStore ?s i"
    unfolding run_append using I assms(1) sub(2) assms(2) by (rule run_sealed_frozen)
  have I': "storage_inv k ?B ?s'"
    using inv_constructor assms(1) by (rule inv_run) simp
  from eq assms(2) have sl: "isSealed (evidenceStore ?s' i)" by simp
  with I' have ex: "evidenceExists ?s' i" by (rule inv_sealed_exists)
  from ex sl have us: "updateStatus e i st n ?s' = (Inl (Revert ''Evidence is sealed''), ?s')"
    by (rule updateStatus_sealed)
  then have "transact (updateStatus e i st n) ?s' = (Inl (Revert ''Evidence is sealed''), ?s')"
    by (simp add: transact_def)
  with eq sl show ?thesis by simp
qed

theorem sealed_is_permanent_witness:
  "collision_free lengthDigest
     (set (preimages ([(alice, register_report), (alice, SealEvidence 88)] @
        [(alice, UpdateStatus 88 Disputed ''x''), (bob, LogAudit 88 ''NOTE'' ''reviewed'')]))) \<and>
   isSealed (evidenceStore
     (run lengthDigest genesis [(alice, register_report), (alice, SealEvidence 88)]) 88) \<and>
   isSealed (evidenceStore
     (run lengthDigest genesis ([(alice, register_report), (alice, SealEvidence 88)] @
        [(alice, UpdateStatus 88 Disputed ''x''), (bob, LogAudit 88 ''NOTE'' ''reviewed'')])) 88) \<and>
   status (evidenceStore
     (run lengthDigest genesis ([(alice, register_report), (alice, SealEvidence 88)] @
        [(alice, UpdateStatus 88 Disputed ''x''), (bob, LogAudit 88 ''NOTE'' ''reviewed'')])) 88) = Active \<and>
   fst (transact (updateStatus alice 88 Disputed ''x'')
     (run lengthDigest genesis ([(alice, register_report), (alice, SealEvidence 88)] @
        [(alice, UpdateStatus 88 Disputed ''x''), (bob, LogAudit 88 ''NOTE'' ''reviewed'')]))) =
     Inl (Revert ''Evidence is sealed'')"
proof -
  have h1: "collision_free lengthDigest
     (set (preimages ([(alice, register_report), (alice, SealEvidence 88)] @
        [(alice, UpdateStatus 88 Disputed ''x''), (bob, LogAudit 88 ''NOTE'' ''reviewed'')])))"
    by (simp add: scenario_defs collision_free_def lengthDigest_encodePacked)
  have h2: "isSealed (evidenceStore
     (run lengthDigest (constructor deployer) [(alice, register_report), (alice, SealEvidence 88)]) 88)"
    by (simp add: scenario_defs exec_add exec_seal lengthDigest_encodePacked constructor_def
        evidenceExists_def)
  have h3: "status (evidenceStore
     (run lengthDigest (constructor deployer) [(alice, register_report), (alice, SealEvidence 88)]) 88) = Active"
    by (simp add: scenario_defs exec_add exec_seal lengthDigest_encodePacked constructor_def
        evidenceExists_def)
  from sealed_is_permanent [OF h1 h2, of alice Disputed "''x''"] h1 h2 h3
  show ?thesis by (simp add: genesis_def)
qed

section \<open>Sealing, audit entries and failed transactions\<close>

text \<open>
  Claim C4. \<^verbatim>\<open>sealEvidence\<close> succeeds exactly when the record exists, is not sealed and
  the sender is the uploader of the record or the owner of the contract. It then sets
  \<open>isSealed\<close> and appends one \<^verbatim>\<open>EVIDENCE_SEALED\<close> audit entry, and changes nothing else.
  Otherwise it aborts with "Evidence not found", "Evidence is sealed" or "Not authorized to
  seal", in this order of precedence, and the storage is as before.
\<close>

theorem sealEvidence_spec:
  "transact (sealEvidence e i) s =
     (if evidenceExists s i \<and> \<not> isSealed (evidenceStore s i) \<and>
         (msg_sender e = uploader (evidenceStore s i) \<or> msg_sender e = owner s)
      then (Inr (),
            s\<lparr>evidenceStore := (evidenceStore s)(i := (evidenceStore s i)\<lparr>isSealed := True\<rparr>),
              auditLogs := (auditLogs s)(i := auditLogs s i @
                [\<lparr>actor = msg_sender e, action = ''EVIDENCE_SEALED'',
                  logTimestamp = block_timestamp e,
                  logNotes = ''Evidence sealed for integrity''\<rparr>])\<rparr>)
      else (Inl (Revert
              (if \<not> evidenceExists s i then ''Evidence not found''
               else if isSealed (evidenceStore s i) then ''Evidence is sealed''
               else ''Not authorized to seal'')), s))"
  by (simp add: transact_def sealEvidence_def notSealed_def Let_def)

theorem sealEvidence_spec_witness:
  "fst (transact (sealEvidence alice 88) report_registered) = Inr () \<and>
   isSealed (evidenceStore (snd (transact (sealEvidence alice 88) report_registered)) 88) \<and>
   length (auditLogs (snd (transact (sealEvidence alice 88) report_registered)) 88) = 2 \<and>
   transact (sealEvidence bob 88) report_registered =
     (Inl (Revert ''Not authorized to seal''), report_registered) \<and>
   transact (sealEvidence alice 99) report_registered =
     (Inl (Revert ''Evidence not found''), report_registered) \<and>
   transact (sealEvidence alice 88) (snd (transact (sealEvidence deployer 88) report_registered)) =
     (Inl (Revert ''Evidence is sealed''), snd (transact (sealEvidence deployer 88) report_registered))"
proof -
  have a: "fst (transact (sealEvidence alice 88) report_registered) = Inr () \<and>
   isSealed (evidenceStore (snd (transact (sealEvidence alice 88) report_registered)) 88) \<and>
   length (auditLogs (snd (transact (sealEvidence alice 88) report_registered)) 88) = 2"
    using sealEvidence_spec [of alice 88 report_registered]
    by (simp add: report_registered_simps alice_def) (simp add: report_registered_eq)
  have b: "transact (sealEvidence bob 88) report_registered =
     (Inl (Revert ''Not authorized to seal''), report_registered)"
    using sealEvidence_spec [of bob 88 report_registered]
    by (simp add: report_registered_simps bob_def)
  have c: "transact (sealEvidence alice 99) report_registered =
     (Inl (Revert ''Evidence not found''), report_registered)"
    using sealEvidence_spec [of alice 99 report_registered]
    by (simp add: report_registered_simps)
  have d: "snd (transact (sealEvidence deployer 88) report_registered) =
     report_registered\<lparr>evidenceStore := (evidenceStore report_registered)(88 :=
         (evidenceStore report_registered 88)\<lparr>isSealed := True\<rparr>),
       auditLogs := (auditLogs report_registered)(88 := auditLogs report_registered 88 @
         [\<lparr>actor = 0xD0, action = ''EVIDENCE_SEALED'', logTimestamp = 1699999999,
           logNotes = ''Evidence sealed for integrity''\<rparr>])\<rparr>"
    using sealEvidence_spec [of deployer 88 report_registered]
    by (simp add: report_registered_simps deployer_def)
  have e: "transact (sealEvidence alice 88) (snd (transact (sealEvidence deployer 88) report_registered)) =
     (Inl (Revert ''Evidence is sealed''), snd (transact (sealEvidence deployer 88) report_registered))"
    using sealEvidence_spec [of alice 88 "snd (transact (sealEvidence deployer 88) report_registered)"]
    unfolding d by (simp add: evidenceExists_def report_registered_eq)
  from a b c e show ?thesis by simp
qed

lemma logAudit_transact:
  "transact (logAudit e i a n) s =
     (if evidenceExists s i
      then (Inr (),
            s\<lparr>auditLogs := (auditLogs s)(i := auditLogs s i @
                [\<lparr>actor = msg_sender e, action = a,
                  logTimestamp = block_timestamp e, logNotes = n\<rparr>])\<rparr>)
      else (Inl (Revert ''Evidence not found''), s))"
  by (simp add: transact_def logAudit_def Let_def)

lemma sealEvidence_exists:
  "fst (transact (sealEvidence e i) s) = Inr () \<Longrightarrow>
   evidenceExists (snd (transact (sealEvidence e i) s)) i \<and>
   isSealed (evidenceStore (snd (transact (sealEvidence e i) s)) i)"
  by (simp add: transact_def sealEvidence_def notSealed_def Let_def evidenceExists_def
      split: if_splits)

text \<open>
  Claim C5. \<^verbatim>\<open>logAudit\<close> succeeds on every existing record, whoever the sender is and
  whether or not the record is sealed: it appends one entry with the sender, the action and
  the notes at the end of the audit log of the record, and no record is modified. It aborts
  only with "Evidence not found", when the record does not exist. After a successful
  \<^verbatim>\<open>sealEvidence\<close> it still succeeds and the log grows by its entry.
\<close>

theorem logAudit_spec:
  "transact (logAudit e i a n) s =
     (if evidenceExists s i
      then (Inr (),
            s\<lparr>auditLogs := (auditLogs s)(i := auditLogs s i @
                [\<lparr>actor = msg_sender e, action = a,
                  logTimestamp = block_timestamp e, logNotes = n\<rparr>])\<rparr>)
      else (Inl (Revert ''Evidence not found''), s)) \<and>
   evidenceStore (snd (transact (logAudit e i a n) s)) = evidenceStore s \<and>
   (fst (transact (sealEvidence e' i) s) = Inr () \<longrightarrow>
      fst (transact (logAudit e i a n) (snd (transact (sealEvidence e' i) s))) = Inr () \<and>
      auditLogs (snd (transact (logAudit e i a n) (snd (transact (sealEvidence e' i) s)))) i =
        auditLogs (snd (transact (sealEvidence e' i) s)) i @
          [\<lparr>actor = msg_sender e, action = a, logTimestamp = block_timestamp e, logNotes = n\<rparr>])"
proof (intro conjI impI)
  show "transact (logAudit e i a n) s =
     (if evidenceExists s i
      then (Inr (),
            s\<lparr>auditLogs := (auditLogs s)(i := auditLogs s i @
                [\<lparr>actor = msg_sender e, action = a,
                  logTimestamp = block_timestamp e, logNotes = n\<rparr>])\<rparr>)
      else (Inl (Revert ''Evidence not found''), s))"
    by (rule logAudit_transact)
  show "evidenceStore (snd (transact (logAudit e i a n) s)) = evidenceStore s"
    by (simp add: logAudit_transact)
next
  assume ok: "fst (transact (sealEvidence e' i) s) = Inr ()"
  then have ex: "evidenceExists (snd (transact (sealEvidence e' i) s)) i"
    by (simp add: sealEvidence_exists)
  from ex show "fst (transact (logAudit e i a n) (snd (transact (sealEvidence e' i) s))) = Inr ()"
    by (simp add: logAudit_transact)
  from ex show "auditLogs (snd (transact (logAudit e i a n) (snd (transact (sealEvidence e' i) s)))) i =
        auditLogs (snd (transact (sealEvidence e' i) s)) i @
          [\<lparr>actor = msg_sender e, action = a, logTimestamp = block_timestamp e, logNotes = n\<rparr>]"
    by (simp add: logAudit_transact)
qed

theorem logAudit_spec_witness:
  "fst (transact (sealEvidence alice 88) report_registered) = Inr () \<and>
   fst (transact (logAudit bob 88 ''NOTE'' ''reviewed'')
          (snd (transact (sealEvidence alice 88) report_registered))) = Inr () \<and>
   length (auditLogs (snd (transact (logAudit bob 88 ''NOTE'' ''reviewed'')
          (snd (transact (sealEvidence alice 88) report_registered)))) 88) = 3 \<and>
   transact (logAudit bob 99 ''NOTE'' ''reviewed'') report_registered =
     (Inl (Revert ''Evidence not found''), report_registered)"
proof -
  have a: "fst (transact (sealEvidence alice 88) report_registered) = Inr ()"
    by (simp add: transact_def sealEvidence_def notSealed_def report_registered_simps alice_def)
  have l: "length (auditLogs (snd (transact (sealEvidence alice 88) report_registered)) 88) = 2"
    by (simp add: transact_def sealEvidence_def notSealed_def report_registered_simps alice_def)
       (simp add: report_registered_eq)
  from logAudit_spec [of bob 88 "''NOTE''" "''reviewed''" report_registered alice] a l
  have b: "fst (transact (logAudit bob 88 ''NOTE'' ''reviewed'')
          (snd (transact (sealEvidence alice 88) report_registered))) = Inr () \<and>
   length (auditLogs (snd (transact (logAudit bob 88 ''NOTE'' ''reviewed'')
          (snd (transact (sealEvidence alice 88) report_registered)))) 88) = 3"
    by simp
  from logAudit_spec [of bob 99 "''NOTE''" "''reviewed''" report_registered alice]
  have c: "transact (logAudit bob 99 ''NOTE'' ''reviewed'') report_registered =
     (Inl (Revert ''Evidence not found''), report_registered)"
    by (simp add: report_registered_simps)
  from a b c show ?thesis by simp
qed

lemma dispatch_revert_no_write:
  "fst (dispatch k e c s) = Inl (Revert m) \<Longrightarrow> snd (dispatch k e c s) = s"
proof (cases c)
  case (AddEvidence h ipfs name ty sz d c')
  assume "fst (dispatch k e c s) = Inl (Revert m)"
  then show ?thesis unfolding AddEvidence
    by (simp add: addEvidence_def Let_def split: if_splits)
next
  case (SealEvidence i)
  assume "fst (dispatch k e c s) = Inl (Revert m)"
  then show ?thesis unfolding SealEvidence
    by (simp add: sealEvidence_def Let_def split: if_splits)
next
  case (UpdateStatus i st n)
  assume "fst (dispatch k e c s) = Inl (Revert m)"
  then show ?thesis unfolding UpdateStatus
    by (simp add: updateStatus_def Let_def split: if_splits)
next
  case (LogAudit i a n)
  assume "fst (dispatch k e c s) = Inl (Revert m)"
  then show ?thesis unfolding LogAudit
    by (simp add: logAudit_def Let_def split: if_splits)
qed

text \<open>The only abort after a write is the overflow of the counter: the function has
  then stored the record and pushed the identifier, and the transaction restores the storage.\<close>

lemma overflow_is_rolled_back:
  "fst (addEvidence lengthDigest alice ''a1f0'' [] ''report.pdf'' ''application/pdf'' 2048 []
          ''CASE-1'' (genesis\<lparr>totalEvidence := - 1\<rparr>)) = Inl (Panic 0x11) \<and>
   allEvidenceIds (snd (addEvidence lengthDigest alice ''a1f0'' [] ''report.pdf''
          ''application/pdf'' 2048 [] ''CASE-1'' (genesis\<lparr>totalEvidence := - 1\<rparr>))) = [88] \<and>
   transact (addEvidence lengthDigest alice ''a1f0'' [] ''report.pdf'' ''application/pdf'' 2048 []
          ''CASE-1'') (genesis\<lparr>totalEvidence := - 1\<rparr>) =
     (Inl (Panic 0x11), genesis\<lparr>totalEvidence := - 1\<rparr>)"
  by (simp add: transact_def addEvidence_def Let_def genesis_def constructor_def
      lengthDigest_encodePacked alice_def)

lemma exec_fst: "fst (exec k s ec) = fst (dispatch k (fst ec) (snd ec) s)"
  by (simp add: exec_def transact_def split: prod.splits sum.splits)

lemma exec_failed: "fst (exec k s ec) = Inl err \<Longrightarrow> snd (exec k s ec) = s"
  by (simp add: exec_def transact_def split: prod.splits sum.splits)

text \<open>
  Claim C9. A transaction (\<^verbatim>\<open>addEvidence\<close>, \<^verbatim>\<open>sealEvidence\<close>, \<^verbatim>\<open>updateStatus\<close> or
  \<^verbatim>\<open>logAudit\<close>) that fails, for whatever reason, leaves the whole storage (records, hash
  index, identifier lists, counter, audit logs) exactly as it was; the error is the result
  of the call and the run goes on from the same storage. When the failure is a \<^verbatim>\<open>require\<close>,
  the function has not written anything before it either.
\<close>

theorem failed_transaction_changes_nothing:
  assumes "fst (exec k s ec) = Inl err"
  shows "snd (exec k s ec) = s \<and> run k s (ec # tr) = run k s tr \<and>
         outcomes k s (ec # tr) = Inl err # outcomes k s tr \<and>
         (\<forall>m. err = Revert m \<longrightarrow> snd (dispatch k (fst ec) (snd ec) s) = s)"
proof -
  from assms have a: "snd (exec k s ec) = s" by (rule exec_failed)
  from assms have "\<And>m. err = Revert m \<Longrightarrow> snd (dispatch k (fst ec) (snd ec) s) = s"
    by (simp add: exec_fst dispatch_revert_no_write)
  with a assms show ?thesis by simp
qed

theorem failed_transaction_changes_nothing_witness:
  "fst (exec lengthDigest report_registered (bob, SealEvidence 88)) =
     Inl (Revert ''Not authorized to seal'') \<and>
   snd (exec lengthDigest report_registered (bob, SealEvidence 88)) = report_registered \<and>
   run lengthDigest report_registered [(bob, SealEvidence 88), (alice, SealEvidence 88)] =
     run lengthDigest report_registered [(alice, SealEvidence 88)]"
proof -
  have a: "fst (exec lengthDigest report_registered (bob, SealEvidence 88)) =
     Inl (Revert ''Not authorized to seal'')"
    by (simp add: exec_seal report_registered_simps bob_def)
  from failed_transaction_changes_nothing [OF a, of "[(alice, SealEvidence 88)]"] a
  show ?thesis by simp
qed

section \<open>Status updates of an unsealed record\<close>

lemma exec_update_ok:
  assumes "evidenceExists s i" "\<not> isSealed (evidenceStore s i)"
    "msg_sender e = uploader (evidenceStore s i) \<or> msg_sender e = owner s"
  shows "exec k s (e, UpdateStatus i st n) =
     (Inr Void,
      s\<lparr>evidenceStore := (evidenceStore s)(i := (evidenceStore s i)\<lparr>status := st\<rparr>),
        auditLogs := (auditLogs s)(i := auditLogs s i @
          [\<lparr>actor = msg_sender e, action = ''STATUS_UPDATED'',
            logTimestamp = block_timestamp e, logNotes = n\<rparr>])\<rparr>)"
  using assms by (auto simp add: exec_update)

text \<open>
  Claim C6. On a record that exists and is not sealed, any sequence of \<^verbatim>\<open>updateStatus\<close>
  calls by the uploader or the owner succeeds, whatever the status values and their order
  (\<open>EvidenceStatus\<close> has the four values and no transition is excluded): the status is the
  one of the last call, every call has appended one \<^verbatim>\<open>STATUS_UPDATED\<close> audit entry with
  its notes, and nothing else has changed.
\<close>

theorem updateStatus_any_order:
  assumes "evidenceExists s i" and "\<not> isSealed (evidenceStore s i)"
    and "\<forall>u \<in> set us. msg_sender (fst u) = uploader (evidenceStore s i) \<or>
                        msg_sender (fst u) = owner s"
  shows "run k s (map (\<lambda>u. (fst u, UpdateStatus i (fst (snd u)) (snd (snd u)))) us) =
           s\<lparr>evidenceStore := (evidenceStore s)(i := (evidenceStore s i)
                \<lparr>status := last (status (evidenceStore s i) # map (\<lambda>u. fst (snd u)) us)\<rparr>),
             auditLogs := (auditLogs s)(i := auditLogs s i @
                map (\<lambda>u. \<lparr>actor = msg_sender (fst u), action = ''STATUS_UPDATED'',
                           logTimestamp = block_timestamp (fst u), logNotes = snd (snd u)\<rparr>) us)\<rparr> \<and>
         outcomes k s (map (\<lambda>u. (fst u, UpdateStatus i (fst (snd u)) (snd (snd u)))) us) =
           replicate (length us) (Inr Void)"
  using assms
proof (induction us arbitrary: s)
  case Nil
  then show ?case by simp
next
  case (Cons u us)
  define r1 where "r1 = (evidenceStore s i)\<lparr>status := fst (snd u)\<rparr>"
  define l1 where "l1 = auditLogs s i @
          [\<lparr>actor = msg_sender (fst u), action = ''STATUS_UPDATED'',
            logTimestamp = block_timestamp (fst u), logNotes = snd (snd u)\<rparr>]"
  define s1 where "s1 = s\<lparr>evidenceStore := (evidenceStore s)(i := r1),
        auditLogs := (auditLogs s)(i := l1)\<rparr>"
  from Cons.prems have auth: "msg_sender (fst u) = uploader (evidenceStore s i) \<or>
      msg_sender (fst u) = owner s"
    by simp
  from Cons.prems(1,2) auth
  have step: "exec k s (fst u, UpdateStatus i (fst (snd u)) (snd (snd u))) = (Inr Void, s1)"
    unfolding s1_def r1_def l1_def by (rule exec_update_ok)
  have e1: "evidenceStore s1 = (evidenceStore s)(i := r1)"
    and a1: "auditLogs s1 = (auditLogs s)(i := l1)"
    and o1: "owner s1 = owner s"
    and u1: "\<And>E A. s1\<lparr>evidenceStore := E, auditLogs := A\<rparr> = s\<lparr>evidenceStore := E, auditLogs := A\<rparr>"
    by (simp_all add: s1_def)
  have r1: "fileHash r1 = fileHash (evidenceStore s i)" "isSealed r1 = isSealed (evidenceStore s i)"
    "uploader r1 = uploader (evidenceStore s i)" "status r1 = fst (snd u)"
    "\<And>x. r1\<lparr>status := x\<rparr> = (evidenceStore s i)\<lparr>status := x\<rparr>"
    by (simp_all add: r1_def)
  have p1: "evidenceExists s1 i" using Cons.prems(1) by (simp add: evidenceExists_def e1 r1)
  have p2: "\<not> isSealed (evidenceStore s1 i)" using Cons.prems(2) by (simp add: e1 r1)
  have p3: "\<forall>v \<in> set us. msg_sender (fst v) = uploader (evidenceStore s1 i) \<or>
                        msg_sender (fst v) = owner s1"
    using Cons.prems(3) by (simp add: e1 r1 o1)
  note IH = Cons.IH [OF p1 p2 p3]
  have l: "last (fst (snd u) # map (\<lambda>u. fst (snd u)) us) =
           last (status (evidenceStore s i) # map (\<lambda>u. fst (snd u)) (u # us))"
    by simp
  have run: "run k s (map (\<lambda>u. (fst u, UpdateStatus i (fst (snd u)) (snd (snd u)))) (u # us)) =
      run k s1 (map (\<lambda>u. (fst u, UpdateStatus i (fst (snd u)) (snd (snd u)))) us)"
    by (simp add: step)
  have out: "outcomes k s (map (\<lambda>u. (fst u, UpdateStatus i (fst (snd u)) (snd (snd u)))) (u # us)) =
      Inr Void # outcomes k s1 (map (\<lambda>u. (fst u, UpdateStatus i (fst (snd u)) (snd (snd u)))) us)"
    by (simp add: step)
  have A: "run k s (map (\<lambda>u. (fst u, UpdateStatus i (fst (snd u)) (snd (snd u)))) (u # us)) =
           s\<lparr>evidenceStore := (evidenceStore s)(i := (evidenceStore s i)
                \<lparr>status := last (status (evidenceStore s i) # map (\<lambda>u. fst (snd u)) (u # us))\<rparr>),
             auditLogs := (auditLogs s)(i := auditLogs s i @
                map (\<lambda>u. \<lparr>actor = msg_sender (fst u), action = ''STATUS_UPDATED'',
                           logTimestamp = block_timestamp (fst u), logNotes = snd (snd u)\<rparr>) (u # us))\<rparr>"
    unfolding run conjunct1[OF IH] u1 e1 a1 l[symmetric]
    by (simp add: r1 l1_def)
  have B: "outcomes k s (map (\<lambda>u. (fst u, UpdateStatus i (fst (snd u)) (snd (snd u)))) (u # us)) =
           replicate (length (u # us)) (Inr Void)"
    unfolding out conjunct2[OF IH] by simp
  from A B show ?case ..
qed

theorem updateStatus_any_order_witness:
  "evidenceExists report_registered 88 \<and> \<not> isSealed (evidenceStore report_registered 88) \<and>
   status (evidenceStore (run lengthDigest report_registered
     [(alice, UpdateStatus 88 Disputed ''d''), (deployer, UpdateStatus 88 Active ''a''),
      (alice, UpdateStatus 88 Disputed ''d2''), (alice, UpdateStatus 88 Archived ''ar''),
      (deployer, UpdateStatus 88 UnderReview ''u'')]) 88) = UnderReview \<and>
   length (auditLogs (run lengthDigest report_registered
     [(alice, UpdateStatus 88 Disputed ''d''), (deployer, UpdateStatus 88 Active ''a''),
      (alice, UpdateStatus 88 Disputed ''d2''), (alice, UpdateStatus 88 Archived ''ar''),
      (deployer, UpdateStatus 88 UnderReview ''u'')]) 88) = 6"
proof -
  have h1: "evidenceExists report_registered 88"
    and h2: "\<not> isSealed (evidenceStore report_registered 88)"
    by (simp_all add: report_registered_simps)
  have h3: "\<forall>u \<in> set [(alice, Disputed, ''d''), (deployer, Active, ''a''), (alice, Disputed, ''d2''),
               (alice, Archived, ''ar''), (deployer, UnderReview, ''u'')].
            msg_sender (fst u) = uploader (evidenceStore report_registered 88) \<or>
            msg_sender (fst u) = owner report_registered"
    by (simp add: report_registered_simps alice_def deployer_def)
  have l: "length (auditLogs report_registered 88) = 1"
    by (simp add: report_registered_eq)
  from updateStatus_any_order [OF h1 h2 h3, of lengthDigest] h1 h2 l
  show ?thesis by simp
qed

section \<open>Registrations and the hash index\<close>

lemma exec_index_stable:
  assumes "hashToId s h \<noteq> 0"
  shows "hashToId (snd (exec k s ec)) h = hashToId s h"
proof (cases ec)
  case (Pair e c)
  show ?thesis
  proof (cases c)
    case (AddEvidence h' ipfs name ty sz d c')
    show ?thesis
    proof (cases "h' = h")
      case True
      with assms show ?thesis unfolding Pair AddEvidence by (simp add: exec_add)
    next
      case False
      then show ?thesis unfolding Pair AddEvidence by (simp add: exec_add)
    qed
  next
    case (SealEvidence j)
    then show ?thesis unfolding Pair by (simp add: exec_seal)
  next
    case (UpdateStatus j st n)
    then show ?thesis unfolding Pair by (simp add: exec_update)
  next
    case (LogAudit j a n)
    then show ?thesis unfolding Pair by (simp add: exec_log)
  qed
qed

lemma exec_index_unregistered:
  assumes "h \<notin> fst ` set (registrations k s [ec])"
  shows "hashToId (snd (exec k s ec)) h = hashToId s h"
proof (cases ec)
  case (Pair e c)
  show ?thesis
  proof (cases c)
    case (AddEvidence h' ipfs name ty sz d c')
    show ?thesis
    proof (cases "h' = h")
      case True
      with assms have "\<forall>i. fst (exec k s (e, AddEvidence h ipfs name ty sz d c')) \<noteq> Inr (EvidenceId i)"
        unfolding Pair AddEvidence by (auto split: sum.splits retval.splits)
      then show ?thesis unfolding Pair AddEvidence True by (simp add: exec_add split: if_splits)
    next
      case False
      then show ?thesis unfolding Pair AddEvidence by (simp add: exec_add)
    qed
  next
    case (SealEvidence j)
    then show ?thesis unfolding Pair by (simp add: exec_seal)
  next
    case (UpdateStatus j st n)
    then show ?thesis unfolding Pair by (simp add: exec_update)
  next
    case (LogAudit j a n)
    then show ?thesis unfolding Pair by (simp add: exec_log)
  qed
qed

lemma registrations_Cons:
  "set (registrations k s (ec # tr)) =
     set (registrations k s [ec]) \<union> set (registrations k (snd (exec k s ec)) tr)"
  by (cases ec) simp

lemma run_index_unregistered:
  "h \<notin> fst ` set (registrations k s tr) \<Longrightarrow> hashToId (run k s tr) h = hashToId s h"
proof (induction tr arbitrary: s)
  case Nil
  then show ?case by simp
next
  case (Cons ec tr)
  from Cons.prems have a: "h \<notin> fst ` set (registrations k s [ec])"
    and b: "h \<notin> fst ` set (registrations k (snd (exec k s ec)) tr)"
    using registrations_Cons [of k s ec tr] by blast+
  from b have "hashToId (run k (snd (exec k s ec)) tr) h = hashToId (snd (exec k s ec)) h"
    by (rule Cons.IH)
  also from a have "\<dots> = hashToId s h" by (rule exec_index_unregistered)
  finally show ?case by simp
qed

lemma registered_as_exec:
  assumes I: "storage_inv k B s" and cf: "collision_free k B" and sub: "set (preimages [ec]) \<subseteq> B"
    and reg: "registered_as s h i e"
  shows "registered_as (snd (exec k s ec)) h i e"
proof -
  from reg have nz: "i \<noteq> 0" and ix: "hashToId s h = i" and ex: "evidenceExists s i"
    and fh: "fileHash (evidenceStore s i) = h" and up: "uploader (evidenceStore s i) = msg_sender e"
    and ts: "timestamp (evidenceStore s i) = block_timestamp e"
    unfolding registered_as_def by blast+
  from nz ix have "hashToId s h \<noteq> 0" by simp
  then have ix': "hashToId (snd (exec k s ec)) h = hashToId s h" by (rule exec_index_stable)
  note core = exec_core_stable [OF I cf sub ex]
  from core fh ex have ex': "evidenceExists (snd (exec k s ec)) i"
    by (simp add: evidenceExists_def)
  from nz ix ix' ex' core fh up ts show ?thesis
    unfolding registered_as_def by simp
qed

lemma registered_as_run:
  "storage_inv k B s \<Longrightarrow> collision_free k B \<Longrightarrow> set (preimages tr) \<subseteq> B \<Longrightarrow>
   registered_as s h i e \<Longrightarrow> registered_as (run k s tr) h i e"
proof (induction tr arbitrary: s)
  case Nil
  then show ?case by simp
next
  case (Cons ec tr)
  from Cons.prems(3) have a: "set (preimages [ec]) \<subseteq> B" and b: "set (preimages tr) \<subseteq> B"
    by (rule preimages_ConsD)+
  from Cons.prems(1,2) a have I': "storage_inv k B (snd (exec k s ec))" by (rule inv_exec)
  from Cons.prems(1,2) a Cons.prems(4) have "registered_as (snd (exec k s ec)) h i e"
    by (rule registered_as_exec)
  with I' Cons.prems(2) b show ?case by (simp add: Cons.IH)
qed

lemma exec_add_registers:
  assumes ok: "fst (exec k s (e, AddEvidence h ipfs name ty sz d c)) = Inr (EvidenceId i)"
    and cf: "collision_free k B"
    and mem: "encodePacked h (msg_sender e) (block_timestamp e) (block_number e) \<in> B"
  shows "registered_as (snd (exec k s (e, AddEvidence h ipfs name ty sz d c))) h i e"
    and "i = k (encodePacked h (msg_sender e) (block_timestamp e) (block_number e))"
proof -
  note pre = exec_add_ok [OF ok]
  from pre(5) show i: "i = k (encodePacked h (msg_sender e) (block_timestamp e) (block_number e))"
    by simp
  from cf mem have "k (encodePacked h (msg_sender e) (block_timestamp e) (block_number e)) \<noteq> 0"
    unfolding collision_free_def by blast
  with i have nz: "i \<noteq> 0" by simp
  from pre(1-4) nz show "registered_as (snd (exec k s (e, AddEvidence h ipfs name ty sz d c))) h i e"
    unfolding registered_as_def i by (simp add: exec_add evidenceExists_def)
qed

lemma registrations_single:
  assumes "(h, i, e) \<in> set (registrations k s [ec])"
  shows "\<exists>ipfs name ty sz d c. ec = (e, AddEvidence h ipfs name ty sz d c) \<and>
           fst (exec k s (e, AddEvidence h ipfs name ty sz d c)) = Inr (EvidenceId i)"
proof (cases ec)
  case (Pair e' c)
  with assms show ?thesis
    by (cases c) (auto split: sum.splits retval.splits)
qed

lemma registrations_run:
  assumes "storage_inv k B s" "collision_free k B" "set (preimages tr) \<subseteq> B"
    and "(h, i, e) \<in> set (registrations k s tr)"
  shows "registered_as (run k s tr) h i e \<and>
         i = k (encodePacked h (msg_sender e) (block_timestamp e) (block_number e))"
  using assms
proof (induction tr arbitrary: s)
  case Nil
  then show ?case by simp
next
  case (Cons ec tr)
  from Cons.prems(3) have a: "set (preimages [ec]) \<subseteq> B" and b: "set (preimages tr) \<subseteq> B"
    by (rule preimages_ConsD)+
  from Cons.prems(1,2) a have I': "storage_inv k B (snd (exec k s ec))" by (rule inv_exec)
  from Cons.prems(4) consider
      (head) "(h, i, e) \<in> set (registrations k s [ec])"
    | (tail) "(h, i, e) \<in> set (registrations k (snd (exec k s ec)) tr)"
    using registrations_Cons [of k s ec tr] by blast
  then show ?case
  proof cases
    case head
    then obtain ipfs name ty sz d c where ec: "ec = (e, AddEvidence h ipfs name ty sz d c)"
      and ok: "fst (exec k s (e, AddEvidence h ipfs name ty sz d c)) = Inr (EvidenceId i)"
      using registrations_single by blast
    from a ec have mem: "encodePacked h (msg_sender e) (block_timestamp e) (block_number e) \<in> B"
      by simp
    from ok Cons.prems(2) mem have r: "registered_as (snd (exec k s ec)) h i e"
      and d: "i = k (encodePacked h (msg_sender e) (block_timestamp e) (block_number e))"
      unfolding ec by (rule exec_add_registers)+
    from I' Cons.prems(2) b r have "registered_as (run k (snd (exec k s ec)) tr) h i e"
      by (rule registered_as_run)
    with d show ?thesis unfolding run.simps by (intro conjI)
  next
    case tail
    with I' Cons.prems(2) b
    have "registered_as (run k (snd (exec k s ec)) tr) h i e \<and>
         i = k (encodePacked h (msg_sender e) (block_timestamp e) (block_number e))"
      by (rule Cons.IH)
    then show ?thesis unfolding run.simps .
  qed
qed

lemma reachable_inv:
  assumes "collision_free k (set (preimages tr))"
  shows "storage_inv k (set (preimages tr)) (run k (constructor e0) tr)"
  using inv_constructor assms by (rule inv_run) simp

lemma reachable_registered:
  assumes "collision_free k (set (preimages tr))"
    and "(h, i, e) \<in> set (registrations k (constructor e0) tr)"
  shows "registered_as (run k (constructor e0) tr) h i e \<and>
         i = k (encodePacked h (msg_sender e) (block_timestamp e) (block_number e))"
  by (rule registrations_run [OF inv_constructor assms(1) subset_refl assms(2)])

text \<open>
  Claim C10. In every storage reached from the constructor, a content hash that the index
  \<open>hashToId\<close> maps to a non-zero identifier points at an existing record whose stored
  content hash is that hash, which is not empty; so the record returned by
  \<^verbatim>\<open>getEvidenceByHash\<close> and the one reported by \<^verbatim>\<open>verifyEvidence\<close> have exactly the
  queried hash. The digest is assumed free of collisions and non-zero on the preimages of the
  run.
\<close>

theorem hash_index_consistent:
  assumes cf: "collision_free k (set (preimages tr))"
    and s: "s = run k (constructor e0) tr"
  shows "(hashToId s h \<noteq> 0 \<longrightarrow>
            evidenceExists s (hashToId s h) \<and> h \<noteq> [] \<and>
            fileHash (evidenceStore s (hashToId s h)) = h) \<and>
         (\<forall>r. getEvidenceByHash s h = Inr r \<longrightarrow>
            fileHash r = h \<and> getEvidence s (hashToId s h) = Inr r) \<and>
         (\<forall>i a t. verifyEvidence s h = (True, i, a, t) \<longrightarrow>
            getEvidence s i = Inr (evidenceStore s i) \<and> fileHash (evidenceStore s i) = h \<and>
            uploader (evidenceStore s i) = a \<and> timestamp (evidenceStore s i) = t)"
proof -
  from cf have I: "storage_inv k (set (preimages tr)) s" unfolding s by (rule reachable_inv)
  have A: "evidenceExists s (hashToId s h) \<and> h \<noteq> [] \<and>
            fileHash (evidenceStore s (hashToId s h)) = h" if nz: "hashToId s h \<noteq> 0"
  proof -
    from I nz have ex: "evidenceExists s (hashToId s h)" by (rule inv_index_exists)
    from I nz have fh: "fileHash (evidenceStore s (hashToId s h)) = h" by (rule inv_index_hash)
    from ex fh have "h \<noteq> []" by (auto simp add: evidenceExists_def)
    with ex fh show ?thesis by simp
  qed
  have B: "fileHash r = h \<and> getEvidence s (hashToId s h) = Inr r"
    if r: "getEvidenceByHash s h = Inr r" for r
  proof -
    from r have nz: "hashToId s h \<noteq> 0" and req: "r = evidenceStore s (hashToId s h)"
      by (auto simp add: getEvidenceByHash_def Let_def split: if_splits)
    from A [OF nz] req show ?thesis by (simp add: getEvidence_def)
  qed
  have C: "getEvidence s i = Inr (evidenceStore s i) \<and> fileHash (evidenceStore s i) = h \<and>
            uploader (evidenceStore s i) = a \<and> timestamp (evidenceStore s i) = t"
    if v: "verifyEvidence s h = (True, i, a, t)" for i a t
  proof -
    from v have nz: "hashToId s h \<noteq> 0" and i: "i = hashToId s h"
      and a: "a = uploader (evidenceStore s i)" and t: "t = timestamp (evidenceStore s i)"
      by (auto simp add: verifyEvidence_def Let_def split: if_splits)
    from A [OF nz] i a t show ?thesis by (simp add: getEvidence_def)
  qed
  from A B C show ?thesis by blast
qed

text \<open>
  Claim C7. \<^verbatim>\<open>verifyEvidence\<close> is a \<^verbatim>\<open>view\<close> function: it maps the storage and the hash
  to its result and has no storage to return, so it changes nothing and two calls on the
  same storage give the same result. In a storage reached from the constructor, a hash that
  no successful \<^verbatim>\<open>addEvidence\<close> of the run has registered is reported as
  \<open>(False, 0, 0, 0)\<close>, a result and not an error; a registered hash is reported as found,
  with the identifier returned at its registration, the sender and the block timestamp of
  that registration.
\<close>

theorem verifyEvidence_spec:
  assumes cf: "collision_free k (set (preimages tr))"
    and s: "s = run k (constructor e0) tr"
  shows "(h \<notin> fst ` set (registrations k (constructor e0) tr) \<longrightarrow>
            verifyEvidence s h = (False, 0, 0, 0)) \<and>
         (\<forall>i e. (h, i, e) \<in> set (registrations k (constructor e0) tr) \<longrightarrow>
            verifyEvidence s h = (True, i, msg_sender e, block_timestamp e))"
proof (intro conjI allI impI)
  assume "h \<notin> fst ` set (registrations k (constructor e0) tr)"
  then have "hashToId s h = hashToId (constructor e0) h"
    unfolding s by (rule run_index_unregistered)
  then show "verifyEvidence s h = (False, 0, 0, 0)"
    by (simp add: verifyEvidence_def constructor_def)
next
  fix i e
  assume "(h, i, e) \<in> set (registrations k (constructor e0) tr)"
  with cf have "registered_as s h i e \<and>
         i = k (encodePacked h (msg_sender e) (block_timestamp e) (block_number e))"
    unfolding s by (rule reachable_registered)
  then show "verifyEvidence s h = (True, i, msg_sender e, block_timestamp e)"
    by (auto simp add: registered_as_def verifyEvidence_def Let_def)
qed

text \<open>
  Claim C2, as the code has it. When the content hash is already in the hash index of a
  reachable storage, an \<^verbatim>\<open>addEvidence\<close> transaction aborts and the storage is unchanged:
  no record, no audit entry, no counter increment, the existing record as it was. The
  abort is "Evidence with this hash already exists" when the file name is not empty and
  "File name required" when it is empty, since the name is checked first; it carries a
  message and no identifier. The identifier of the existing record is what
  \<^verbatim>\<open>verifyEvidence\<close> reports for the hash on that storage: it is the one returned when the
  hash was registered, and \<^verbatim>\<open>getEvidence\<close> returns under it the record with that hash.
  The upload route answers 409 with this identifier, and sends no transaction, when its own
  \<^verbatim>\<open>verifyEvidence\<close> call finds the hash. The digest is assumed free of collisions and
  non-zero on the preimages of the run.
\<close>

theorem duplicate_registration_rejected:
  assumes cf: "collision_free k (set (preimages tr))"
    and s: "s = run k (constructor e0) tr"
    and nz: "hashToId s h \<noteq> 0"
  shows "transact (addEvidence k e h ipfs name ty sz d c) s =
           (Inl (Revert (if name = [] then ''File name required''
                         else ''Evidence with this hash already exists'')), s) \<and>
         verifyEvidence s h =
           (True, hashToId s h, uploader (evidenceStore s (hashToId s h)),
            timestamp (evidenceStore s (hashToId s h))) \<and>
         (\<forall>i e1. (h, i, e1) \<in> set (registrations k (constructor e0) tr) \<longrightarrow> hashToId s h = i) \<and>
         getEvidence s (hashToId s h) = Inr (evidenceStore s (hashToId s h)) \<and>
         fileHash (evidenceStore s (hashToId s h)) = h \<and>
         upload k e h ipfs name ty sz d c between1 between2 s = (Conflict409 (hashToId s h), s)"
proof -
  from cf have I: "storage_inv k (set (preimages tr)) s" unfolding s by (rule reachable_inv)
  from I nz have ex: "evidenceExists s (hashToId s h)" by (rule inv_index_exists)
  from I nz have fh: "fileHash (evidenceStore s (hashToId s h)) = h" by (rule inv_index_hash)
  from ex fh have ne: "h \<noteq> []" by (auto simp add: evidenceExists_def)
  from nz have v: "verifyEvidence s h =
           (True, hashToId s h, uploader (evidenceStore s (hashToId s h)),
            timestamp (evidenceStore s (hashToId s h)))"
    by (simp add: verifyEvidence_def Let_def)
  from v have up: "upload k e h ipfs name ty sz d c between1 between2 s =
      (Conflict409 (hashToId s h), s)"
    by (simp add: upload_def)
  have orig: "hashToId s h = i"
    if "(h, i, e1) \<in> set (registrations k (constructor e0) tr)" for i e1
  proof -
    from cf that have "registered_as s h i e1"
      unfolding s using reachable_registered by blast
    then show ?thesis by (simp add: registered_as_def)
  qed
  from nz ne have t: "transact (addEvidence k e h ipfs name ty sz d c) s =
           (Inl (Revert (if name = [] then ''File name required''
                         else ''Evidence with this hash already exists'')), s)"
    by (simp add: transact_def addEvidence_def)
  from ex have g: "getEvidence s (hashToId s h) = Inr (evidenceStore s (hashToId s h))"
    by (simp add: getEvidence_def)
  from t v orig g fh up show ?thesis by blast
qed

subsection \<open>On the concrete run\<close>

lemma report_preimages:
  "collision_free lengthDigest (set (preimages [(alice, register_report)]))"
  by (simp add: scenario_defs collision_free_def lengthDigest_encodePacked)

lemma report_registrations:
  "registrations lengthDigest genesis [(alice, register_report)] = [(''a1f0'', 88, alice)]"
  by (simp add: scenario_defs exec_add lengthDigest_encodePacked constructor_def)

theorem hash_index_consistent_witness:
  "collision_free lengthDigest (set (preimages [(alice, register_report)])) \<and>
   hashToId report_registered ''a1f0'' = 88 \<and>
   fileHash (evidenceStore report_registered 88) = ''a1f0'' \<and>
   getEvidenceByHash report_registered ''a1f0'' = getEvidence report_registered 88 \<and>
   verifyEvidence report_registered ''a1f0'' = (True, 88, 0xA11CE, 1700000000)"
proof -
  have s: "report_registered = run lengthDigest (constructor deployer) [(alice, register_report)]"
    by (simp add: report_registered_def genesis_def)
  have nz: "hashToId report_registered ''a1f0'' = 88"
    by (simp add: report_registered_simps)
  have g: "getEvidenceByHash report_registered ''a1f0'' = Inr (evidenceStore report_registered 88)"
    by (simp add: getEvidenceByHash_def report_registered_simps)
  have v: "verifyEvidence report_registered ''a1f0'' = (True, 88, 0xA11CE, 1700000000)"
    by (simp add: verifyEvidence_def report_registered_eq)
  from hash_index_consistent [OF report_preimages s, of "''a1f0''"] nz g v report_preimages
  show ?thesis by simp
qed

theorem verifyEvidence_spec_witness:
  "collision_free lengthDigest (set (preimages [(alice, register_report)])) \<and>
   ''b2e1c'' \<notin> fst ` set (registrations lengthDigest genesis [(alice, register_report)]) \<and>
   verifyEvidence report_registered ''b2e1c'' = (False, 0, 0, 0) \<and>
   (''a1f0'', 88, alice) \<in> set (registrations lengthDigest genesis [(alice, register_report)]) \<and>
   verifyEvidence report_registered ''a1f0'' = (True, 88, 0xA11CE, 1700000000)"
proof -
  have s: "report_registered = run lengthDigest (constructor deployer) [(alice, register_report)]"
    by (simp add: report_registered_def genesis_def)
  have r: "registrations lengthDigest (constructor deployer) [(alice, register_report)] =
      [(''a1f0'', 88, alice)]"
    using report_registrations by (simp add: genesis_def)
  from verifyEvidence_spec [OF report_preimages s, of "''b2e1c''", unfolded r]
  have a: "verifyEvidence report_registered ''b2e1c'' = (False, 0, 0, 0)"
    by simp
  from verifyEvidence_spec [OF report_preimages s, of "''a1f0''", unfolded r]
  have b: "verifyEvidence report_registered ''a1f0'' = (True, 88, 0xA11CE, 1700000000)"
    by (simp add: alice_def)
  from a b report_preimages show ?thesis
    unfolding report_registrations by simp
qed

theorem duplicate_registration_rejected_witness:
  "collision_free lengthDigest (set (preimages [(alice, register_report)])) \<and>
   hashToId report_registered ''a1f0'' \<noteq> 0 \<and>
   (''a1f0'', 88, alice) \<in> set (registrations lengthDigest genesis [(alice, register_report)]) \<and>
   transact (addEvidence lengthDigest bob ''a1f0'' [] ''copy.pdf'' ''application/pdf'' 2048 []
     ''CASE-2'') report_registered =
     (Inl (Revert ''Evidence with this hash already exists''), report_registered) \<and>
   verifyEvidence report_registered ''a1f0'' = (True, 88, 0xA11CE, 1700000000) \<and>
   upload lengthDigest bob ''a1f0'' [] ''copy.pdf'' ''application/pdf'' 2048 [] ''CASE-2''
     [(alice, SealEvidence 88)] [] report_registered = (Conflict409 88, report_registered)"
proof -
  have s: "report_registered = run lengthDigest (constructor deployer) [(alice, register_report)]"
    by (simp add: report_registered_def genesis_def)
  have nz: "hashToId report_registered ''a1f0'' \<noteq> 0"
    by (simp add: report_registered_simps)
  have r: "uploader (evidenceStore report_registered 88) = 0xA11CE"
    "timestamp (evidenceStore report_registered 88) = 1700000000"
    by (simp_all add: report_registered_eq)
  from duplicate_registration_rejected [OF report_preimages s nz, of bob "[]" "''copy.pdf''"
    "''application/pdf''" 2048 "[]" "''CASE-2''" "[(alice, SealEvidence 88)]" "[]"]
    nz report_preimages
  show ?thesis unfolding report_registrations by (simp add: report_registered_simps r)
qed

text \<open>
  Claim C2 as stated fails. The hash \<open>''a1f0''\<close> is in the hash index under the identifier
  88. An \<^verbatim>\<open>addEvidence\<close> call with this hash and an empty file name aborts with "File
  name required", not with the duplicate error; with a file name it aborts with "Evidence
  with this hash already exists", a message that holds no identifier.
\<close>

theorem duplicate_registration_returns_no_id:
  "hashToId report_registered ''a1f0'' = 88 \<and>
   transact (addEvidence lengthDigest bob ''a1f0'' [] [] ''application/pdf'' 2048 [] ''CASE-2'')
     report_registered = (Inl (Revert ''File name required''), report_registered) \<and>
   transact (addEvidence lengthDigest bob ''a1f0'' [] ''copy.pdf'' ''application/pdf'' 2048 []
     ''CASE-2'') report_registered =
     (Inl (Revert ''Evidence with this hash already exists''), report_registered)"
  by (simp add: transact_def addEvidence_def report_registered_simps)

text \<open>
  On the route, the 409 answer with the identifier needs the hash to be known at the first
  access. When the registration of the same file by another sender is mined after the
  \<^verbatim>\<open>verifyEvidence\<close> call of the handler, before the simulation or before the transaction,
  the handler answers 500 with the error of the contract and no identifier.
\<close>

lemma upload_after_concurrent_registration:
  "upload lengthDigest bob ''a1f0'' [] ''copy.pdf'' ''application/pdf'' 2048 [] ''CASE-2''
     [(alice, register_report)] [] genesis =
     (ServerError500 (Revert ''Evidence with this hash already exists''), report_registered) \<and>
   upload lengthDigest bob ''a1f0'' [] ''copy.pdf'' ''application/pdf'' 2048 [] ''CASE-2''
     [] [(alice, register_report)] genesis =
     (ServerError500 (Revert ''Evidence with this hash already exists''), report_registered)"
proof -
  have g: "verifyEvidence genesis ''a1f0'' = (False, 0, 0, 0)"
    "fst (addEvidence lengthDigest bob ''a1f0'' [] ''copy.pdf'' ''application/pdf'' 2048 []
       ''CASE-2'' genesis) = Inr 88"
    by (simp_all add: verifyEvidence_def addEvidence_def Let_def genesis_def constructor_def
        lengthDigest_encodePacked)
  have r: "run lengthDigest genesis [(alice, register_report)] = report_registered"
    by (simp add: report_registered_def)
  have a: "addEvidence lengthDigest bob ''a1f0'' [] ''copy.pdf'' ''application/pdf'' 2048 []
       ''CASE-2'' report_registered =
       (Inl (Revert ''Evidence with this hash already exists''), report_registered)"
    by (simp add: addEvidence_def report_registered_simps)
  from g r a show ?thesis
    by (simp add: upload_def transact_def Let_def)
qed

section \<open>Registration\<close>

lemma exec_audit_prefix: "\<exists>rest. auditLogs (snd (exec k s ec)) i = auditLogs s i @ rest"
proof (cases ec)
  case (Pair e c)
  show ?thesis
  proof (cases c)
    case (AddEvidence h ipfs name ty sz d c')
    show ?thesis unfolding Pair AddEvidence by (simp add: exec_add)
  next
    case (SealEvidence j)
    show ?thesis unfolding Pair SealEvidence by (simp add: exec_seal)
  next
    case (UpdateStatus j st n)
    show ?thesis unfolding Pair UpdateStatus by (simp add: exec_update)
  next
    case (LogAudit j a n)
    show ?thesis unfolding Pair LogAudit by (simp add: exec_log)
  qed
qed

lemma run_audit_prefix: "\<exists>rest. auditLogs (run k s tr) i = auditLogs s i @ rest"
proof (induction tr arbitrary: s)
  case Nil
  show ?case by simp
next
  case (Cons ec tr)
  obtain r1 where a: "auditLogs (snd (exec k s ec)) i = auditLogs s i @ r1"
    using exec_audit_prefix by blast
  obtain r2 where b: "auditLogs (run k (snd (exec k s ec)) tr) i = auditLogs (snd (exec k s ec)) i @ r2"
    using Cons.IH by blast
  from a b have "auditLogs (run k s (ec # tr)) i = auditLogs s i @ (r1 @ r2)" by simp
  then show ?case ..
qed

lemma counter_increment:
  fixes n :: uint256
  assumes "n \<noteq> - 1"
  shows "unat (n + 1) = unat n + 1"
proof -
  from assms have "1 + n \<noteq> 0" by (simp add: add_eq_0_iff)
  then have "unat (1 + n) = Suc (unat n)" by (rule unatSuc)
  then show ?thesis by (simp add: add.commute)
qed

lemma exec_counter: "unat (totalEvidence (snd (exec k s ec))) \<le> unat (totalEvidence s) + 1"
proof (cases ec)
  case (Pair e c)
  show ?thesis
  proof (cases c)
    case (AddEvidence h ipfs name ty sz d c')
    show ?thesis unfolding Pair AddEvidence by (simp add: exec_add counter_increment)
  next
    case (SealEvidence j)
    show ?thesis unfolding Pair SealEvidence by (simp add: exec_seal)
  next
    case (UpdateStatus j st n)
    show ?thesis unfolding Pair UpdateStatus by (simp add: exec_update)
  next
    case (LogAudit j a n)
    show ?thesis unfolding Pair LogAudit by (simp add: exec_log)
  qed
qed

lemma run_counter: "unat (totalEvidence (run k s tr)) \<le> unat (totalEvidence s) + length tr"
proof (induction tr arbitrary: s)
  case Nil
  show ?case by simp
next
  case (Cons ec tr)
  have "unat (totalEvidence (run k (snd (exec k s ec)) tr)) \<le>
        unat (totalEvidence (snd (exec k s ec))) + length tr"
    by (rule Cons.IH)
  also have "\<dots> \<le> (unat (totalEvidence s) + 1) + length tr"
    using exec_counter [of k s ec] by simp
  finally show ?case by simp
qed

lemma counter_has_room:
  assumes "length tr < 2 ^ 256 - 1"
  shows "totalEvidence (run k (constructor e0) tr) \<noteq> - 1"
proof
  assume "totalEvidence (run k (constructor e0) tr) = - 1"
  then have "unat (totalEvidence (run k (constructor e0) tr)) = 2 ^ 256 - 1"
    by (simp add: unsigned_minus_1_eq_mask mask_eq_exp_minus_1)
  moreover have "unat (totalEvidence (run k (constructor e0) tr)) \<le> length tr"
    using run_counter [of k "constructor e0" tr] by (simp add: constructor_def)
  ultimately show False using assms by simp
qed

text \<open>
  Claim C3. In a storage reached from the constructor, an \<^verbatim>\<open>addEvidence\<close> call with a
  non-empty content hash and file name, whose hash is not in the hash index, returns the
  digest \<open>i\<close> of its packed preimage and changes the storage in exactly this way: a record
  with the supplied fields, the sender as uploader, \<open>status = Active\<close> and
  \<open>isSealed = False\<close> is stored under \<open>i\<close>, where no record existed; the hash is mapped
  to \<open>i\<close>; \<open>i\<close> is appended to the list of all identifiers and to the list of the sender;
  the counter grows by one; the audit log of \<open>i\<close> is the single \<^verbatim>\<open>EVIDENCE_ADDED\<close> entry,
  which stays the first entry of that log under all further transactions. The digest is
  assumed free of collisions and non-zero on the preimages hashed so far, and the run has
  fewer than \<open>2 ^ 256 - 1\<close> transactions, so that the checked increment of the counter cannot
  overflow.
\<close>

theorem addEvidence_spec:
  assumes cf: "collision_free k (set (preimages (tr @ [(e, AddEvidence h ipfs name ty sz d c)])))"
    and s: "s = run k (constructor e0) tr"
    and i: "i = k (encodePacked h (msg_sender e) (block_timestamp e) (block_number e))"
    and pre: "h \<noteq> []" "name \<noteq> []" "hashToId s h = 0"
    and len: "length tr < 2 ^ 256 - 1"
  shows "exec k s (e, AddEvidence h ipfs name ty sz d c) =
           (Inr (EvidenceId i),
            s\<lparr>evidenceStore := (evidenceStore s)(i :=
                 \<lparr>fileHash = h, ipfsHash = ipfs, fileName = name, fileType = ty, fileSize = sz,
                  description = d, caseId = c, timestamp = block_timestamp e,
                  uploader = msg_sender e, isSealed = False, status = Active\<rparr>),
              hashToId := (hashToId s)(h := i),
              uploaderEvidence := (uploaderEvidence s)(msg_sender e :=
                 uploaderEvidence s (msg_sender e) @ [i]),
              allEvidenceIds := allEvidenceIds s @ [i],
              totalEvidence := totalEvidence s + 1,
              auditLogs := (auditLogs s)(i :=
                 [\<lparr>actor = msg_sender e, action = ''EVIDENCE_ADDED'',
                   logTimestamp = block_timestamp e, logNotes = ''Initial upload''\<rparr>])\<rparr>) \<and>
         i \<noteq> 0 \<and> \<not> evidenceExists s i \<and>
         evidenceExists (snd (exec k s (e, AddEvidence h ipfs name ty sz d c))) i \<and>
         getAuditLogs (snd (exec k s (e, AddEvidence h ipfs name ty sz d c))) i =
           Inr [\<lparr>actor = msg_sender e, action = ''EVIDENCE_ADDED'',
                 logTimestamp = block_timestamp e, logNotes = ''Initial upload''\<rparr>] \<and>
         unat (totalEvidence s + 1) = unat (totalEvidence s) + 1 \<and>
         (\<forall>tr'. \<exists>rest.
            auditLogs (run k (snd (exec k s (e, AddEvidence h ipfs name ty sz d c))) tr') i =
              \<lparr>actor = msg_sender e, action = ''EVIDENCE_ADDED'',
                logTimestamp = block_timestamp e, logNotes = ''Initial upload''\<rparr> # rest)"
proof -
  let ?B = "set (preimages (tr @ [(e, AddEvidence h ipfs name ty sz d c)]))"
  let ?entry = "\<lparr>actor = msg_sender e, action = ''EVIDENCE_ADDED'',
                logTimestamp = block_timestamp e, logNotes = ''Initial upload''\<rparr>"
  from len have room: "totalEvidence s \<noteq> - 1" unfolding s by (rule counter_has_room)
  have sub: "set (preimages tr) \<subseteq> ?B" by (auto simp add: preimages_append)
  have mem: "encodePacked h (msg_sender e) (block_timestamp e) (block_number e) \<in> ?B"
    by (simp add: preimages_append)
  have I: "storage_inv k ?B s" unfolding s using inv_constructor cf sub by (rule inv_run)
  from I cf mem pre(3) have fresh: "\<not> evidenceExists s i" and nz: "i \<noteq> 0"
    and nolog: "auditLogs s i = []"
    unfolding i by (rule fresh_id')+
  from pre room nolog
  have ex: "exec k s (e, AddEvidence h ipfs name ty sz d c) =
           (Inr (EvidenceId i),
            s\<lparr>evidenceStore := (evidenceStore s)(i :=
                 \<lparr>fileHash = h, ipfsHash = ipfs, fileName = name, fileType = ty, fileSize = sz,
                  description = d, caseId = c, timestamp = block_timestamp e,
                  uploader = msg_sender e, isSealed = False, status = Active\<rparr>),
              hashToId := (hashToId s)(h := i),
              uploaderEvidence := (uploaderEvidence s)(msg_sender e :=
                 uploaderEvidence s (msg_sender e) @ [i]),
              allEvidenceIds := allEvidenceIds s @ [i],
              totalEvidence := totalEvidence s + 1,
              auditLogs := (auditLogs s)(i := [?entry])\<rparr>)"
    unfolding i by (simp add: exec_add)
  from pre(1) have ex': "evidenceExists (snd (exec k s (e, AddEvidence h ipfs name ty sz d c))) i"
    unfolding ex by (simp add: evidenceExists_def)
  have al: "auditLogs (snd (exec k s (e, AddEvidence h ipfs name ty sz d c))) i = [?entry]"
    unfolding ex by simp
  have later: "\<exists>rest.
            auditLogs (run k (snd (exec k s (e, AddEvidence h ipfs name ty sz d c))) tr') i =
              ?entry # rest" for tr'
    using run_audit_prefix [of k "snd (exec k s (e, AddEvidence h ipfs name ty sz d c))" tr' i]
    unfolding al by simp
  from room have cnt: "unat (totalEvidence s + 1) = unat (totalEvidence s) + 1"
    by (rule counter_increment)
  from ex' al
  have ga: "getAuditLogs (snd (exec k s (e, AddEvidence h ipfs name ty sz d c))) i = Inr [?entry]"
    by (simp add: getAuditLogs_def)
  from ex nz fresh ex' ga cnt later show ?thesis by blast
qed

lemma photo_preimages:
  "collision_free lengthDigest (set (preimages [(alice, register_report), (bob, register_photo)]))"
  by (simp add: scenario_defs collision_free_def lengthDigest_encodePacked)

lemma photo_registrations:
  "registrations lengthDigest genesis [(alice, register_report), (bob, register_photo)] =
     [(''a1f0'', 88, alice), (''b2e1c'', 89, bob)]"
  by (simp add: scenario_defs exec_add lengthDigest_encodePacked constructor_def)

theorem addEvidence_spec_witness:
  "collision_free lengthDigest
     (set (preimages ([(alice, register_report)] @
        [(bob, AddEvidence ''b2e1c'' [] ''photo.png'' ''image/png'' 4096 [] ''CASE-1'')]))) \<and>
   hashToId report_registered ''b2e1c'' = 0 \<and>
   fst (exec lengthDigest report_registered
     (bob, AddEvidence ''b2e1c'' [] ''photo.png'' ''image/png'' 4096 [] ''CASE-1'')) = Inr (EvidenceId 89) \<and>
   totalEvidence (snd (exec lengthDigest report_registered
     (bob, AddEvidence ''b2e1c'' [] ''photo.png'' ''image/png'' 4096 [] ''CASE-1''))) = 2 \<and>
   auditLogs (snd (exec lengthDigest report_registered
     (bob, AddEvidence ''b2e1c'' [] ''photo.png'' ''image/png'' 4096 [] ''CASE-1''))) 89 =
     [\<lparr>actor = 0xB0B, action = ''EVIDENCE_ADDED'', logTimestamp = 1700000060,
       logNotes = ''Initial upload''\<rparr>]"
proof -
  have cf: "collision_free lengthDigest
     (set (preimages ([(alice, register_report)] @
        [(bob, AddEvidence ''b2e1c'' [] ''photo.png'' ''image/png'' 4096 [] ''CASE-1'')])))"
    using photo_preimages by (simp add: register_photo_def)
  have s: "report_registered = run lengthDigest (constructor deployer) [(alice, register_report)]"
    by (simp add: report_registered_def genesis_def)
  have i: "(89 :: bytes32) = lengthDigest (encodePacked ''b2e1c'' (msg_sender bob)
      (block_timestamp bob) (block_number bob))"
    by (simp add: lengthDigest_encodePacked)
  have p: "''b2e1c'' \<noteq> []" "''photo.png'' \<noteq> []" "hashToId report_registered ''b2e1c'' = 0"
    by (simp_all add: report_registered_eq)
  have l: "length [(alice, register_report)] < 2 ^ 256 - 1"
    by simp
  have t: "totalEvidence report_registered = 1"
    by (simp add: report_registered_eq)
  from addEvidence_spec [OF cf s i p l] cf p(3) t
  show ?thesis by (simp add: bob_def)
qed

section \<open>Identifiers\<close>

lemma duplicate_rejected:
  assumes "fst (exec k s (e, AddEvidence h ipfs name ty sz d c)) = Inr (EvidenceId i)" and "i \<noteq> 0"
  shows "\<exists>m. fst (exec k (snd (exec k s (e, AddEvidence h ipfs name ty sz d c)))
                 (e', AddEvidence h ipfs' name' ty' sz' d' c')) = Inl (Revert m)"
proof -
  define s1 where "s1 = snd (exec k s (e, AddEvidence h ipfs name ty sz d c))"
  note pre = exec_add_ok [OF assms(1)]
  from pre(5) have i: "i = k (encodePacked h (msg_sender e) (block_timestamp e) (block_number e))"
    by simp
  from pre(1-4) have "hashToId s1 h = i"
    unfolding i s1_def by (simp add: exec_add)
  with assms(2) have "hashToId s1 h \<noteq> 0" by simp
  then have "\<exists>m. fst (exec k s1 (e', AddEvidence h ipfs' name' ty' sz' d' c')) = Inl (Revert m)"
    by (simp add: exec_add)
  then show ?thesis unfolding s1_def .
qed

text \<open>
  Claim C8, as the code has it. The identifier returned by \<^verbatim>\<open>addEvidence\<close> is the digest
  of the packed content hash, sender, block timestamp and block number. In a storage reached
  from the constructor, two registrations with distinct content hashes have distinct
  identifiers, and \<^verbatim>\<open>getEvidence\<close> returns for each the record with its hash. A further
  \<^verbatim>\<open>addEvidence\<close> call with a registered hash receives no identifier, whoever sends it
  and whenever: it aborts and leaves the storage unchanged. The digest is assumed free of
  collisions and non-zero on the preimages of the run.
\<close>

theorem distinct_hashes_distinct_ids:
  assumes cf: "collision_free k (set (preimages tr))"
    and s: "s = run k (constructor e0) tr"
    and r1: "(h1, i1, e1) \<in> set (registrations k (constructor e0) tr)"
    and r2: "(h2, i2, e2) \<in> set (registrations k (constructor e0) tr)"
    and ne: "h1 \<noteq> h2"
  shows "i1 \<noteq> i2 \<and>
         i1 = k (encodePacked h1 (msg_sender e1) (block_timestamp e1) (block_number e1)) \<and>
         i2 = k (encodePacked h2 (msg_sender e2) (block_timestamp e2) (block_number e2)) \<and>
         getEvidence s i1 = Inr (evidenceStore s i1) \<and> fileHash (evidenceStore s i1) = h1 \<and>
         getEvidence s i2 = Inr (evidenceStore s i2) \<and> fileHash (evidenceStore s i2) = h2 \<and>
         (\<forall>e ipfs name ty sz d c.
            \<exists>m. exec k s (e, AddEvidence h1 ipfs name ty sz d c) = (Inl (Revert m), s))"
proof -
  from cf r1 have a: "registered_as s h1 i1 e1"
    and d1: "i1 = k (encodePacked h1 (msg_sender e1) (block_timestamp e1) (block_number e1))"
    unfolding s using reachable_registered by blast+
  from cf r2 have b: "registered_as s h2 i2 e2"
    and d2: "i2 = k (encodePacked h2 (msg_sender e2) (block_timestamp e2) (block_number e2))"
    unfolding s using reachable_registered by blast+
  from a have a': "evidenceExists s i1" "fileHash (evidenceStore s i1) = h1" "hashToId s h1 = i1"
    "i1 \<noteq> 0" "h1 \<noteq> []"
    unfolding registered_as_def evidenceExists_def by auto
  from b have b': "evidenceExists s i2" "fileHash (evidenceStore s i2) = h2"
    unfolding registered_as_def by blast+
  from a'(2) b'(2) ne have "i1 \<noteq> i2" by auto
  moreover have "\<exists>m. exec k s (e, AddEvidence h1 ipfs name ty sz d c) = (Inl (Revert m), s)"
    for e ipfs name ty sz d c
    using a'(3,4,5) by (simp add: exec_add)
  ultimately show ?thesis using d1 d2 a' b' by (simp add: getEvidence_def)
qed

theorem distinct_hashes_distinct_ids_witness:
  "collision_free lengthDigest
     (set (preimages [(alice, register_report), (bob, register_photo)])) \<and>
   (''a1f0'', 88, alice) \<in>
     set (registrations lengthDigest genesis [(alice, register_report), (bob, register_photo)]) \<and>
   (''b2e1c'', 89, bob) \<in>
     set (registrations lengthDigest genesis [(alice, register_report), (bob, register_photo)]) \<and>
   fileHash (evidenceStore
     (run lengthDigest genesis [(alice, register_report), (bob, register_photo)]) 88) = ''a1f0'' \<and>
   fileHash (evidenceStore
     (run lengthDigest genesis [(alice, register_report), (bob, register_photo)]) 89) = ''b2e1c'' \<and>
   getEvidence (run lengthDigest genesis [(alice, register_report), (bob, register_photo)]) 88 =
     Inr (evidenceStore
       (run lengthDigest genesis [(alice, register_report), (bob, register_photo)]) 88)"
proof -
  have r: "registrations lengthDigest (constructor deployer)
      [(alice, register_report), (bob, register_photo)] =
      [(''a1f0'', 88, alice), (''b2e1c'', 89, bob)]"
    using photo_registrations by (simp add: genesis_def)
  have r1: "(''a1f0'', 88, alice) \<in> set (registrations lengthDigest (constructor deployer)
      [(alice, register_report), (bob, register_photo)])"
    and r2: "(''b2e1c'', 89, bob) \<in> set (registrations lengthDigest (constructor deployer)
      [(alice, register_report), (bob, register_photo)])"
    unfolding r by simp_all
  have ne: "''a1f0'' \<noteq> ''b2e1c''" by simp
  from distinct_hashes_distinct_ids [OF photo_preimages refl r1 r2 ne] photo_preimages r1 r2
  show ?thesis by (simp add: genesis_def)
qed

text \<open>
  Claim C8 as stated fails: of two \<^verbatim>\<open>addEvidence\<close> calls with the same content hash,
  sender, block timestamp and block number, the first returns an identifier and the second
  aborts, so the two calls do not receive two distinct identifiers.
\<close>

theorem same_hash_second_call_rejected:
  "outcomes lengthDigest genesis [(alice, register_report), (alice, register_report)] =
     [Inr (EvidenceId 88), Inl (Revert ''Evidence with this hash already exists'')]"
  by (simp add: scenario_defs exec_add lengthDigest_encodePacked constructor_def)

end
